theory Spec2Isabelle
  imports Complex_Main
begin

section \<open>JavaScript values\<close>

text \<open>
  A JavaScript number is modelled as a \<^typ>\<open>real\<close>; a value that may be
  \<^verbatim>\<open>undefined\<close> (an absent property, a read past the end of an array, the
  result of arithmetic on \<^verbatim>\<open>undefined\<close>, which is \<^verbatim>\<open>NaN\<close>) is a
  \<^typ>\<open>real option\<close> with \<^term>\<open>None\<close> for it. Rounding of doubles is not
  modelled.
\<close>

datatype js_error = TypeError

text \<open>Truthiness of a number: \<^verbatim>\<open>undefined\<close>, \<^verbatim>\<open>NaN\<close> and \<^verbatim>\<open>0\<close> are falsy.\<close>

fun truthy :: "real option \<Rightarrow> bool" where
  "truthy None = False"
| "truthy (Some x) = (x \<noteq> 0)"

text \<open>\<^verbatim>\<open>a || b\<close> on numbers.\<close>

definition js_or :: "real option \<Rightarrow> real option \<Rightarrow> real option" where
  "js_or a b = (if truthy a then a else b)"

text \<open>\<^verbatim>\<open>a - b\<close>: \<^verbatim>\<open>NaN\<close> as soon as one side is \<^verbatim>\<open>undefined\<close>.\<close>

fun js_minus :: "real option \<Rightarrow> real option \<Rightarrow> real option" where
  "js_minus (Some a) (Some b) = Some (a - b)"
| "js_minus _ _ = None"

text \<open>\<^verbatim>\<open>xs[i]\<close>: \<^verbatim>\<open>undefined\<close> out of range.\<close>

definition js_index :: "'a list \<Rightarrow> nat \<Rightarrow> 'a option" where
  "js_index xs i = (if i < length xs then Some (xs ! i) else None)"

text \<open>\<^verbatim>\<open>xs.slice(a, b)\<close> for non-negative \<open>a\<close> and \<open>b\<close>.\<close>

definition slice :: "nat \<Rightarrow> nat \<Rightarrow> 'a list \<Rightarrow> 'a list" where
  "slice a b xs = take (b - a) (drop a xs)"

text \<open>
  \<^verbatim>\<open>xs.reduce((a,b) => a+b)\<close> with no initial value: a \<^verbatim>\<open>TypeError\<close> on the
  empty array, otherwise the fold from the first element.
\<close>

definition reduce_plus :: "real list \<Rightarrow> js_error + real" where
  "reduce_plus xs = (case xs of [] \<Rightarrow> Inl TypeError | y # ys \<Rightarrow> Inr (foldl (+) y ys))"

text \<open>Sequencing of calls that may throw: the first exception ends the evaluation.\<close>

definition thenE :: "js_error + 'a \<Rightarrow> ('a \<Rightarrow> js_error + 'b) \<Rightarrow> js_error + 'b" where
  "thenE r f = (case r of Inl e \<Rightarrow> Inl e | Inr x \<Rightarrow> f x)"

text \<open>
  \<^verbatim>\<open>Math.sqrt\<close>, taken as the real square root. It has no code equation, so
  evaluating a call leaves the root of a concrete number as it stands.
\<close>

definition math_sqrt :: "real \<Rightarrow> real" where
  [code del]: "math_sqrt x = sqrt x"

text \<open>\<^verbatim>\<open>n || 1\<close> on a length.\<close>

definition or_one :: "nat \<Rightarrow> nat" where
  "or_one n = (if n = 0 then 1 else n)"

section \<open>The statistics engine: \<^verbatim>\<open>DiaryStandard.summarise\<close>\<close>

text \<open>
  The argument \<^verbatim>\<open>durations_and_timestamps\<close> is a JavaScript array whose slots are
  either a pair \<^verbatim>\<open>[value, timestamp]\<close>, the value possibly \<^verbatim>\<open>undefined\<close>
  (\<^verbatim>\<open>summarise_records\<close> builds such pairs for records with no duration), or
  a hole of a sparse array (\<^verbatim>\<open>summarise_days\<close> and \<^verbatim>\<open>total_per_day\<close>
  assign by index and leave holes for the days with no data). \<^verbatim>\<open>map\<close>,
  \<^verbatim>\<open>filter\<close> and \<^verbatim>\<open>forEach\<close> do not call their callback at a hole;
  \<^verbatim>\<open>map\<close> and \<^verbatim>\<open>slice\<close> keep the hole, which reads as
  \<^verbatim>\<open>undefined\<close>.
\<close>

datatype slot = Hole | Entry "real option" "real option"

fun slot_value :: "slot \<Rightarrow> real option" where
  "slot_value Hole = None"
| "slot_value (Entry v t) = v"

fun slot_timestamp :: "slot \<Rightarrow> real option" where
  "slot_timestamp Hole = None"
| "slot_timestamp (Entry v t) = t"

text \<open>\<^verbatim>\<open>xs.map( r => r[0] ).filter( r => r !== undefined )\<close>\<close>

definition defined_values :: "slot list \<Rightarrow> real list" where
  "defined_values ps = List.map_filter slot_value ps"

text \<open>
  \<^verbatim>\<open>xs.map( (_,n) => f(n) )\<close> on a sparse array, for a callback that may
  throw: the callback runs at the present slots only, in index order, and the first
  exception ends the call.
\<close>

fun map_index :: "(nat \<Rightarrow> js_error + real option) \<Rightarrow> nat \<Rightarrow> slot list \<Rightarrow> js_error + real option list" where
  "map_index f n [] = Inr []"
| "map_index f n (Hole # ps) =
     thenE (map_index f (Suc n) ps) (\<lambda>ys. Inr (None # ys))"
| "map_index f n (Entry v t # ps) =
     thenE (f n) (\<lambda>y. thenE (map_index f (Suc n) ps) (\<lambda>ys. Inr (y # ys)))"

record statistics =
  average :: real
  mean :: real
  interquartile_mean :: real
  median :: "real option"
  interquartile_range :: "real option"
  durations :: "real option list"
  timestamps :: "real option list"
  interquartile_durations :: "real list"
  rolling_average :: "real option list"
  standard_deviation :: real
  interquartile_standard_deviation :: real

text \<open>
  \<^verbatim>\<open>durations_and_timestamps.slice(Math.max(0,n-13),n+1).map( r => r[0] )
  .filter( r => r !== undefined )\<close>
\<close>

definition rolling_window :: "slot list \<Rightarrow> nat \<Rightarrow> real list" where
  "rolling_window ps n = defined_values (slice (nat (max 0 (int n - 13))) (n + 1) ps)"

text \<open>The callback of the rolling average when \<^verbatim>\<open>rolling_average_max\<close> is falsy.\<close>

definition rolling_plain :: "slot list \<Rightarrow> nat \<Rightarrow> js_error + real option" where
  "rolling_plain ps n =
     (let w = rolling_window ps n in
      if n \<ge> 14 \<and> length w \<noteq> 0
      then thenE (reduce_plus w) (\<lambda>s. Inr (Some (s / real (length w))))
      else Inr None)"

text \<open>
  The \<^verbatim>\<open>forEach\<close> that counts the extremes of the window: a value below a
  quarter of the period counts as low, otherwise a value above three quarters of it counts
  as high.
\<close>

fun count_extremes :: "real \<Rightarrow> real list \<Rightarrow> nat \<times> nat \<Rightarrow> nat \<times> nat" where
  "count_extremes m [] e = e"
| "count_extremes m (d # ds) (lo, hi) =
     count_extremes m ds
       (if d < m * 1 / 4 then (lo + 1, hi)
        else if d > m * 3 / 4 then (lo, hi + 1)
        else (lo, hi))"

text \<open>The callback of the rolling average when \<^verbatim>\<open>rolling_average_max\<close> is truthy.\<close>

definition rolling_circular :: "real \<Rightarrow> slot list \<Rightarrow> nat \<Rightarrow> js_error + real option" where
  "rolling_circular m ps n =
     (if n < 14 then Inr None
      else
        let w = rolling_window ps n;
            extremes = count_extremes m w (0, 0)
        in if length w \<noteq> 0
           then thenE (reduce_plus w) (\<lambda>s.
                  Inr (Some ((s + (if fst extremes < snd extremes
                                   then real (fst extremes) * m
                                   else real (snd extremes) * - m))
                             / real (length w))))
           else Inr None)"

text \<open>\<^verbatim>\<open>xs.reduce( (a,r) => a + Math.pow(r - mean, 2), 0 )\<close>\<close>

definition sum_of_squares :: "real \<Rightarrow> real list \<Rightarrow> real" where
  "sum_of_squares mean' xs = foldl (\<lambda>a r. a + (r - mean') ^ 2) 0 xs"

text \<open>
  \<^verbatim>\<open>summarise\<close> returns \<^verbatim>\<open>null\<close> (\<^term>\<open>Inr None\<close>), a statistics
  object, or throws. \<^verbatim>\<open>defined_durations.sort(a_minus_b)\<close> sorts in place, so
  the sum of the mean runs over the sorted values.
\<close>

definition summarise :: "slot list \<Rightarrow> real option \<Rightarrow> js_error + statistics option" where
  "summarise durations_and_timestamps rolling_average_max =
     (let defined_durations = defined_values durations_and_timestamps;
          total_durations = length defined_durations
      in if total_durations = 0 then Inr None
         else
           (let sorted_durations = sort defined_durations;
                interquartile_durations' =
                  slice (nat (round (real (length sorted_durations) * 0.25)))
                        (nat (round (real (length sorted_durations) * 0.75)))
                        sorted_durations
            in thenE (reduce_plus sorted_durations) (\<lambda>durations_total.
               thenE (reduce_plus interquartile_durations') (\<lambda>interquartile_total.
               thenE (map_index
                        (if truthy rolling_average_max
                         then rolling_circular (the rolling_average_max) durations_and_timestamps
                         else rolling_plain durations_and_timestamps)
                        0 durations_and_timestamps) (\<lambda>rolling.
               (let untrimmed_mean = durations_total / real (or_one total_durations);
                    interquartile_mean' =
                      interquartile_total / real (or_one (length interquartile_durations'))
                in Inr (Some \<lparr>
                     average = untrimmed_mean,
                     mean = untrimmed_mean,
                     interquartile_mean = interquartile_mean',
                     median =
                       js_index sorted_durations (nat \<lfloor>real (length sorted_durations) / 2\<rfloor>),
                     interquartile_range =
                       js_minus
                         (js_index interquartile_durations' (length interquartile_durations' - 1))
                         (js_index interquartile_durations' 0),
                     durations = map slot_value durations_and_timestamps,
                     timestamps = map slot_timestamp durations_and_timestamps,
                     interquartile_durations = interquartile_durations',
                     rolling_average = rolling,
                     standard_deviation =
                       math_sqrt (sum_of_squares untrimmed_mean sorted_durations
                             / real total_durations),
                     interquartile_standard_deviation =
                       math_sqrt (sum_of_squares interquartile_mean' interquartile_durations'
                             / real (length interquartile_durations'))
                   \<rparr>)))))))"

section \<open>Records of a diary\<close>

text \<open>
  A record is a JavaScript object; a property that is absent is \<^term>\<open>None\<close>.
  \<^verbatim>\<open>comments\<close> is an array of comments, or (in files written by hand) a bare
  string, which the constructor wraps in an array.
\<close>

datatype comment = Text string | Timed real string

datatype comments_value = Comment_list "comment list" | Comment_string string

record diary_record =
  status :: string
  start :: "real option"
  end' :: "real option"
  start_timezone :: "string option"
  end_timezone :: "string option"
  duration :: "real option"
  tags :: "string list option"
  comments :: "comments_value option"
  day_number :: "nat option"
  start_of_new_day :: "bool option"
  is_primary_sleep :: "bool option"
  missing_record_after :: "bool option"

text \<open>
  A record as an adapter or a hand-written file supplies it: a status, a start and an end,
  and no other property.
\<close>

definition new_record :: "string \<Rightarrow> real option \<Rightarrow> real option \<Rightarrow> diary_record" where
  "new_record status' start' end'' =
     \<lparr>status = status', start = start', end' = end'', start_timezone = None,
      end_timezone = None, duration = None, tags = None, comments = None,
      day_number = None, start_of_new_day = None, is_primary_sleep = None,
      missing_record_after = None\<rparr>"

section \<open>Queries on the stored records\<close>

text \<open>
  \<^verbatim>\<open>summarise_records(filter)\<close>: the optional filter is a pure predicate on
  records.
\<close>

definition summarise_records ::
  "(diary_record \<Rightarrow> bool) option \<Rightarrow> diary_record list \<Rightarrow> js_error + statistics option" where
  "summarise_records filter' records =
     summarise
       (map (\<lambda>r. Entry (duration r) (js_or (start r) (end' r)))
            (case filter' of None \<Rightarrow> records | Some f \<Rightarrow> filter f records))
       None"

text \<open>
  \<^verbatim>\<open>latest_sleep_status()\<close>: the loop runs \<open>n\<close> from the last index down to
  \<open>0\<close>; \<^term>\<open>latest_from records k\<close> is the loop at \<open>n = k - 1\<close>.
\<close>

fun latest_from :: "diary_record list \<Rightarrow> nat \<Rightarrow> string" where
  "latest_from records 0 = ''''"
| "latest_from records (Suc n) =
     (let status' = status (records ! n) in
      if status' = ''awake'' \<or> status' = ''asleep'' then status'
      else latest_from records n)"

definition latest_sleep_status :: "diary_record list \<Rightarrow> string" where
  "latest_sleep_status records = latest_from records (length records)"

section \<open>The specification's wording of the statistics\<close>

text \<open>
  The defined values at the indices \<open>max(0, i-13)\<close> through \<open>i\<close> inclusive of the
  input sequence, read by index.
\<close>

definition spec_window :: "slot list \<Rightarrow> nat \<Rightarrow> real list" where
  "spec_window ps i =
     List.map_filter (\<lambda>j. slot_value (ps ! j)) [nat (max 0 (int i - 13)) ..< Suc i]"

text \<open>The slice of a list from index \<open>a\<close> inclusive to index \<open>b\<close> exclusive, read by index.\<close>

definition spec_slice :: "nat \<Rightarrow> nat \<Rightarrow> 'a list \<Rightarrow> 'a list" where
  "spec_slice a b xs = map (\<lambda>i. xs ! i) [a ..< b]"

text \<open>The arithmetic mean of a list of numbers.\<close>

definition spec_mean :: "real list \<Rightarrow> real" where
  "spec_mean xs = sum_list xs / real (length xs)"

section \<open>The constructor of \<^verbatim>\<open>DiaryStandard\<close>: sorting and the derivation pass\<close>

text \<open>Arithmetic and comparison of numbers that may be \<^verbatim>\<open>undefined\<close> or \<^verbatim>\<open>NaN\<close>.\<close>

fun js_plus :: "real option \<Rightarrow> real option \<Rightarrow> real option" where
  "js_plus (Some a) (Some b) = Some (a + b)"
| "js_plus _ _ = None"

text \<open>\<^verbatim>\<open>a > b\<close>: false as soon as one side is \<^verbatim>\<open>undefined\<close> or \<^verbatim>\<open>NaN\<close>.\<close>

fun js_greater :: "real option \<Rightarrow> real option \<Rightarrow> bool" where
  "js_greater (Some a) (Some b) = (a > b)"
| "js_greater _ _ = False"

text \<open>\<^verbatim>\<open>x || d\<close> for a setting \<open>x\<close> and a default number \<open>d\<close>.\<close>

fun or_default :: "real option \<Rightarrow> real \<Rightarrow> real" where
  "or_default None d = d"
| "or_default (Some x) d = (if x \<noteq> 0 then x else d)"

text \<open>
  \<^verbatim>\<open>Array.prototype.sort(compare)\<close>. The sort is stable and places \<open>a\<close> after
  \<open>b\<close> when \<^verbatim>\<open>compare(a,b) > 0\<close>; a \<^verbatim>\<open>NaN\<close> result counts as \<open>0\<close>. When
  the comparator is a consistent ordering (for the two comparators below: when every key
  it reads is present) every conforming implementation returns the list computed here, by
  stable insertion. When a comparator returns \<^verbatim>\<open>NaN\<close> for some pairs only, the
  language leaves the order to the implementation; the model then fixes insertion sort.
\<close>

fun insert_by :: "('a \<Rightarrow> 'a \<Rightarrow> real option) \<Rightarrow> 'a \<Rightarrow> 'a list \<Rightarrow> 'a list" where
  "insert_by compare x [] = [x]"
| "insert_by compare x (y # ys) =
     (if js_greater (compare x y) (Some 0) then y # insert_by compare x ys else x # y # ys)"

definition js_sort :: "('a \<Rightarrow> 'a \<Rightarrow> real option) \<Rightarrow> 'a list \<Rightarrow> 'a list" where
  "js_sort compare xs = foldr (insert_by compare) xs []"

text \<open>\<^verbatim>\<open>(a,b) => ( a["start"] - b["start"] ) || ( a["end"] - b["end"] )\<close>\<close>

definition compare_start_end :: "diary_record \<Rightarrow> diary_record \<Rightarrow> real option" where
  "compare_start_end a b = js_or (js_minus (start a) (start b)) (js_minus (end' a) (end' b))"

text \<open>
  A JavaScript array of record references that is assigned by index
  (\<^verbatim>\<open>day_sleeps[r["day_number"]] = r\<close>): an assignment past the end leaves holes. A
  record is referred to by its index in \<^verbatim>\<open>this["records"]\<close>.
\<close>

definition array_get :: "'a option list \<Rightarrow> nat \<Rightarrow> 'a option" where
  "array_get xs i = (if i < length xs then xs ! i else None)"

definition array_set :: "'a option list \<Rightarrow> nat \<Rightarrow> 'a \<Rightarrow> 'a option list" where
  "array_set xs i v =
     (if i < length xs then xs[i := Some v]
      else xs @ replicate (i - length xs) None @ [Some v])"

text \<open>
  The variables of the scan. \<^verbatim>\<open>sleep_wake_record\<close> starts as the dummy object
  \<^verbatim>\<open>prev\<close> (\<^term>\<open>None\<close> here) and then refers to a record of the array.
\<close>

record scan =
  day_start :: "real option"
  day_number' :: nat
  sleep_wake_record :: "nat option"
  day_sleeps :: "nat option list"

definition initial_scan :: scan where
  "initial_scan = \<lparr>day_start = Some 0, day_number' = 0, sleep_wake_record = None, day_sleeps = []\<rparr>"

text \<open>
  \<^verbatim>\<open>if ( !(r[key]||[]).length ) delete r[key]\<close> for \<^verbatim>\<open>tags\<close> and
  \<^verbatim>\<open>comments\<close>. (The same loop for \<^verbatim>\<open>start\<close> and \<^verbatim>\<open>end\<close> deletes an
  \<^verbatim>\<open>undefined\<close> property, which changes nothing here.)
\<close>

definition delete_empty :: "diary_record \<Rightarrow> diary_record" where
  "delete_empty r =
     r\<lparr>tags := (case tags r of
                  None \<Rightarrow> None
                | Some ts \<Rightarrow> if length ts = 0 then None else Some ts),
       comments := (case comments r of
                  None \<Rightarrow> None
                | Some (Comment_list cs) \<Rightarrow> if length cs = 0 then None else Some (Comment_list cs)
                | Some (Comment_string s) \<Rightarrow> if length s = 0 then None else Some (Comment_string s))\<rparr>"

text \<open>
  \<^verbatim>\<open>if ( !r.hasOwnProperty("duration") ) { r["duration"] = r["end"] - r["start"];
  if ( isNaN(r["duration"]) ) delete r["duration"]; }\<close>
\<close>

definition default_duration :: "diary_record \<Rightarrow> diary_record" where
  "default_duration r =
     (case duration r of
        None \<Rightarrow> r\<lparr>duration := js_minus (end' r) (start r)\<rparr>
      | Some d \<Rightarrow> r)"

text \<open>The \<^verbatim>\<open>start_of_new_day\<close> branch: an explicit true value resets \<^verbatim>\<open>day_start\<close>.\<close>

definition set_start_of_new_day :: "real \<Rightarrow> scan \<Rightarrow> diary_record \<Rightarrow> scan \<times> diary_record" where
  "set_start_of_new_day minimum_day_duration s r =
     (case start_of_new_day r of
        Some b \<Rightarrow> ((if b then s\<lparr>day_start := start r\<rparr> else s), r)
      | None \<Rightarrow>
          (s, r\<lparr>start_of_new_day :=
                  Some (status r = ''asleep'' \<and>
                        js_greater (start r)
                          (js_plus (day_start s) (Some minimum_day_duration)))\<rparr>))"

text \<open>The \<^verbatim>\<open>day_number\<close> branch.\<close>

definition set_day_number :: "real \<Rightarrow> scan \<Rightarrow> diary_record \<Rightarrow> scan \<times> diary_record" where
  "set_day_number maximum_day_duration s r =
     (case day_number r of
        Some d \<Rightarrow> (s\<lparr>day_number' := d\<rparr>, r)
      | None \<Rightarrow>
          (let s' =
                 (if start_of_new_day r = Some True
                  then s\<lparr>day_number' :=
                           (if js_greater (start r)
                                 (js_plus (day_start s) (Some maximum_day_duration))
                            then day_number' s + 2
                            else day_number' s + 1),
                         day_start := start r\<rparr>
                  else s)
           in (s', r\<lparr>day_number := Some (day_number' s')\<rparr>)))"

text \<open>
  The sleep/wake branch, for the record at index \<open>i\<close>: the previous sleep/wake record, if
  it is a record of the array and has no \<^verbatim>\<open>missing_record_after\<close> yet, receives
  one.
\<close>

definition set_missing_record_after :: "nat \<Rightarrow> scan \<Rightarrow> diary_record list \<Rightarrow> scan \<times> diary_record list" where
  "set_missing_record_after i s records =
     (let r = records ! i in
      if status r = ''awake'' \<or> status r = ''asleep''
      then (s\<lparr>sleep_wake_record := Some i\<rparr>,
            (case sleep_wake_record s of
               None \<Rightarrow> records
             | Some j \<Rightarrow>
                 (case missing_record_after (records ! j) of
                    None \<Rightarrow>
                      records[j := (records ! j)
                        \<lparr>missing_record_after := Some (status r = status (records ! j))\<rparr>]
                  | Some m \<Rightarrow> records)))
      else (s, records))"

text \<open>
  The primary-sleep branch:
  \<^verbatim>\<open>(day_sleeps[r["day_number"]]||{"duration":-Infinity})["duration"] < r["duration"]\<close>.
  Against \<^verbatim>\<open>-Infinity\<close> the comparison holds for every number. The record has a
  \<^verbatim>\<open>day_number\<close> at this point.
\<close>

definition set_day_sleeps :: "nat \<Rightarrow> scan \<Rightarrow> diary_record list \<Rightarrow> scan" where
  "set_day_sleeps i s records =
     (let r = records ! i in
      if status r = ''asleep''
      then (case day_number r of
              None \<Rightarrow> s
            | Some d \<Rightarrow>
                if (case array_get (day_sleeps s) d of
                      None \<Rightarrow> duration r \<noteq> None
                    | Some j \<Rightarrow> js_greater (duration r) (duration (records ! j)))
                then s\<lparr>day_sleeps := array_set (day_sleeps s) d i\<rparr>
                else s)
      else s)"

text \<open>The \<^verbatim>\<open>comments\<close> branch: a value that is not an array is wrapped in one.\<close>

definition wrap_comments :: "diary_record \<Rightarrow> diary_record" where
  "wrap_comments r =
     (case comments r of
        Some (Comment_string s) \<Rightarrow> r\<lparr>comments := Some (Comment_list [Text s])\<rparr>
      | _ \<Rightarrow> r)"

text \<open>
  The first four blocks of the body of \<^verbatim>\<open>this["records"].forEach( r => ... )\<close>:
  they read and write the record \<open>r\<close>, \<^verbatim>\<open>day_start\<close> and
  \<^verbatim>\<open>day_number\<close> only.
\<close>

definition derive_fields :: "real \<Rightarrow> real \<Rightarrow> scan \<Rightarrow> diary_record \<Rightarrow> scan \<times> diary_record" where
  "derive_fields minimum_day_duration maximum_day_duration s r =
     (let r1 = default_duration (delete_empty r);
          (s2, r2) = set_start_of_new_day minimum_day_duration s r1
      in set_day_number maximum_day_duration s2 r2)"

text \<open>The whole body of the loop, for the record at index \<open>i\<close> of the array.\<close>

definition derive_step ::
  "real \<Rightarrow> real \<Rightarrow> scan \<times> diary_record list \<Rightarrow> nat \<Rightarrow> scan \<times> diary_record list" where
  "derive_step minimum_day_duration maximum_day_duration state i =
     (let (s, records) = state;
          (s3, r3) = derive_fields minimum_day_duration maximum_day_duration s (records ! i);
          (s4, records4) = set_missing_record_after i s3 (records[i := r3]);
          s5 = set_day_sleeps i s4 records4
      in (s5, records4[i := wrap_comments (records4 ! i)]))"

text \<open>
  \<^verbatim>\<open>day_sleeps.forEach( r => { if ( r && !r.hasOwnProperty("is_primary_sleep") )
  r["is_primary_sleep"] = true; } )\<close>
\<close>

definition mark_primary :: "diary_record list \<Rightarrow> nat option \<Rightarrow> diary_record list" where
  "mark_primary records slot' =
     (case slot' of
        None \<Rightarrow> records
      | Some j \<Rightarrow>
          (case is_primary_sleep (records ! j) of
             None \<Rightarrow> records[j := (records ! j)\<lparr>is_primary_sleep := Some True\<rparr>]
           | Some b \<Rightarrow> records))"

text \<open>The scan over the first \<open>k\<close> records of an array.\<close>

definition scan_upto ::
  "real \<Rightarrow> real \<Rightarrow> diary_record list \<Rightarrow> nat \<Rightarrow> scan \<times> diary_record list" where
  "scan_upto minimum_day_duration maximum_day_duration records k =
     foldl (derive_step minimum_day_duration maximum_day_duration) (initial_scan, records) [0 ..< k]"

text \<open>
  The record at index \<open>i\<close> as the loop body leaves it when it has just processed that
  index (a later iteration can only add \<^verbatim>\<open>missing_record_after\<close> to it).
\<close>

definition scanned_record :: "real \<Rightarrow> real \<Rightarrow> diary_record list \<Rightarrow> nat \<Rightarrow> diary_record" where
  "scanned_record minimum_day_duration maximum_day_duration records i =
     wrap_comments
       (snd (derive_fields minimum_day_duration maximum_day_duration
               (fst (scan_upto minimum_day_duration maximum_day_duration records i))
               (records ! i)))"


text \<open>
  The constructor, from \<^verbatim>\<open>contents["records"]\<close> and the two settings, to
  \<^verbatim>\<open>this["records"]\<close>: copy and sort, resolve the settings, scan, mark.
\<close>

definition sorted_records :: "diary_record list \<Rightarrow> diary_record list" where
  "sorted_records contents_records = js_sort compare_start_end contents_records"

definition resolve_minimum :: "real option \<Rightarrow> real" where
  "resolve_minimum minimum = or_default minimum (16 * 60 * 60 * 1000)"

definition resolve_maximum :: "real option \<Rightarrow> real option \<Rightarrow> real" where
  "resolve_maximum minimum maximum = or_default maximum (resolve_minimum minimum * 2)"

definition derive_sorted :: "real \<Rightarrow> real \<Rightarrow> diary_record list \<Rightarrow> diary_record list" where
  "derive_sorted minimum_day_duration maximum_day_duration records =
     (let (s, records') =
            scan_upto minimum_day_duration maximum_day_duration records (length records)
      in foldl mark_primary records' (day_sleeps s))"

definition derive :: "real option \<Rightarrow> real option \<Rightarrow> diary_record list \<Rightarrow> diary_record list" where
  "derive minimum maximum contents_records =
     derive_sorted (resolve_minimum minimum) (resolve_maximum minimum maximum)
       (sorted_records contents_records)"

section \<open>\<^verbatim>\<open>daily_activities\<close>: its effect on the stored records\<close>

text \<open>
  The first statement of \<^verbatim>\<open>daily_activities\<close> is
  \<^verbatim>\<open>let records = this["records"].sort( (a,b) => (a["start"]||a["end"]) -
  (b["start"]||b["end"]) )\<close>, which sorts the stored array in place. No later statement of
  the function assigns to the array or to a property of a record, so this is the stored
  list when the function returns.
\<close>

definition compare_start_or_end :: "diary_record \<Rightarrow> diary_record \<Rightarrow> real option" where
  "compare_start_or_end a b = js_minus (js_or (start a) (end' a)) (js_or (start b) (end' b))"

definition records_after_daily_activities :: "diary_record list \<Rightarrow> diary_record list" where
  "records_after_daily_activities records = js_sort compare_start_or_end records"

section \<open>The specification's wording of the primary sleep\<close>

text \<open>
  The record at index \<open>j\<close> is an asleep record of day \<open>d\<close> with a defined duration.
\<close>

definition day_candidate :: "diary_record list \<Rightarrow> nat \<Rightarrow> nat \<Rightarrow> bool" where
  "day_candidate records d j \<longleftrightarrow>
     status (records ! j) = ''asleep'' \<and> day_number (records ! j) = Some d \<and>
     duration (records ! j) \<noteq> None"

text \<open>
  Among the first \<open>k\<close> records, the record at index \<open>j\<close> is the asleep record of day
  \<open>d\<close> with the largest duration, the first one in list order when several tie: no
  candidate has a longer duration, and every earlier candidate has a strictly shorter one.
\<close>

definition best_before :: "diary_record list \<Rightarrow> nat \<Rightarrow> nat \<Rightarrow> nat \<Rightarrow> bool" where
  "best_before records k d j \<longleftrightarrow>
     j < k \<and> day_candidate records d j \<and>
     (\<forall>j' \<in> set [0 ..< k]. day_candidate records d j' \<longrightarrow>
        \<not> js_greater (duration (records ! j')) (duration (records ! j))) \<and>
     (\<forall>j' \<in> set [0 ..< j]. day_candidate records d j' \<longrightarrow>
        js_greater (duration (records ! j)) (duration (records ! j')))"

text \<open>The indices of the records of day \<open>d\<close> that carry \<^verbatim>\<open>is_primary_sleep = true\<close>.\<close>

definition marked_primary :: "diary_record list \<Rightarrow> nat \<Rightarrow> nat list" where
  "marked_primary records d =
     filter (\<lambda>j. day_number (records ! j) = Some d \<and> is_primary_sleep (records ! j) = Some True)
       [0 ..< length records]"

text \<open>
  The array \<^verbatim>\<open>day_sleeps\<close> holds, for every day, the best record among the first
  \<open>k\<close>, and a hole for a day with no candidate among them.
\<close>

definition tracks_best :: "diary_record list \<Rightarrow> nat \<Rightarrow> nat option list \<Rightarrow> bool" where
  "tracks_best records k sleeps \<longleftrightarrow>
     (\<forall>d. case array_get sleeps d of
            None \<Rightarrow> (\<forall>j<k. \<not> day_candidate records d j)
          | Some j \<Rightarrow> best_before records k d j)"

chapter \<open>Properties\<close>

section \<open>Helper facts about the statistics engine\<close>

lemma reduce_plus_sum: "xs \<noteq> [] \<Longrightarrow> reduce_plus xs = Inr (sum_list xs)"
  by (cases xs) (simp_all add: reduce_plus_def foldl_conv_fold fold_plus_sum_list_rev add.commute)

lemma round_quarter: "nat (round (real n * 0.25)) = (n + 2) div 4"
proof -
  have "real n * 0.25 + 1/2 = real (n + 2) / real 4" by simp
  then have "round (real n * 0.25) = \<lfloor>real (n + 2) / real 4\<rfloor>"
    unfolding round_def by presburger
  also have "\<dots> = int ((n + 2) div 4)"
    by (simp only: floor_divide_of_nat_eq)
  finally show ?thesis by simp
qed

lemma round_three_quarters: "nat (round (real n * 0.75)) = (3 * n + 2) div 4"
proof -
  have "real n * 0.75 + 1/2 = real (3 * n + 2) / real 4" by simp
  then have "round (real n * 0.75) = \<lfloor>real (3 * n + 2) / real 4\<rfloor>"
    unfolding round_def by presburger
  also have "\<dots> = int ((3 * n + 2) div 4)"
    by (simp only: floor_divide_of_nat_eq)
  finally show ?thesis by simp
qed

lemma floor_half: "nat \<lfloor>real n / 2\<rfloor> = n div 2"
proof -
  have "\<lfloor>real n / real 2\<rfloor> = int (n div 2)" by (simp only: floor_divide_of_nat_eq)
  then show ?thesis by simp
qed

lemma quartile_bounds:
  "0 < (n::nat) \<Longrightarrow> (n + 2) div 4 < (3 * n + 2) div 4 \<and> (3 * n + 2) div 4 \<le> n"
proof -
  assume n: "0 < n"
  have upper: "(3 * n + 2) div 4 \<le> n" by linarith
  have lower: "(n + 2) div 4 < (3 * n + 2) div 4"
  proof (cases "n = 1")
    case True
    then show ?thesis by simp
  next
    case False
    with n have "n + 6 \<le> 3 * n + 2" by simp
    then have "(n + 6) div 4 \<le> (3 * n + 2) div 4" by (rule div_le_mono)
    moreover have "(n + 6) div 4 = (n + 2) div 4 + 1" by linarith
    ultimately show ?thesis by simp
  qed
  from lower upper show ?thesis ..
qed

lemma slice_eq_spec_slice: "b \<le> length xs \<Longrightarrow> slice a b xs = spec_slice a b xs"
  unfolding slice_def spec_slice_def
  by (rule nth_equalityI) (auto simp: min_def split: if_splits)

lemma map_filter_map: "List.map_filter f (map g xs) = List.map_filter (\<lambda>x. f (g x)) xs"
  by (induction xs) (simp_all add: map_filter_simps split: option.splits)

lemma thenE_Inr [simp]: "thenE (Inr x) f = f x"
  by (simp add: thenE_def)

lemma thenE_Inl [simp]: "thenE (Inl e) f = Inl e"
  by (simp add: thenE_def)

text \<open>The value the rolling-average callbacks return, with the exception-free sum.\<close>

lemma rolling_window_spec:
  assumes "i < length ps"
  shows "rolling_window ps i = spec_window ps i"
proof -
  have "slice (i - 13) (Suc i) ps = map (\<lambda>j. ps ! j) [i - 13 ..< Suc i]"
    using assms slice_eq_spec_slice[of "Suc i" ps "i - 13"] by (simp add: spec_slice_def)
  moreover have "nat (max 0 (int i - 13)) = i - 13" by simp
  ultimately show ?thesis
    by (simp add: rolling_window_def spec_window_def defined_values_def map_filter_map
        del: upt_Suc)
qed

lemma rolling_plain_value:
  "rolling_plain ps n =
     Inr (if 14 \<le> n \<and> rolling_window ps n \<noteq> []
          then Some (sum_list (rolling_window ps n) / real (length (rolling_window ps n)))
          else None)"
  by (simp add: rolling_plain_def Let_def reduce_plus_sum)

lemma count_extremes_filter:
  "count_extremes m w (lo, hi) =
     (lo + length (filter (\<lambda>d. d < m / 4) w),
      hi + length (filter (\<lambda>d. \<not> d < m / 4 \<and> d > m * 3 / 4) w))"
  by (induction w arbitrary: lo hi) auto

lemma rolling_circular_value:
  "rolling_circular m ps n =
     Inr (if 14 \<le> n \<and> rolling_window ps n \<noteq> []
          then (let w = rolling_window ps n;
                    l = length (filter (\<lambda>d. d < m / 4) w);
                    h = length (filter (\<lambda>d. \<not> d < m / 4 \<and> d > m * 3 / 4) w)
                in Some ((sum_list w + (if l < h then real l * m else - (real h * m)))
                         / real (length w)))
          else None)"
  by (simp add: rolling_circular_def Let_def reduce_plus_sum count_extremes_filter)

lemma map_index_value:
  "map_index (\<lambda>n. Inr (g n)) k ps =
     Inr (map (\<lambda>(i, p). case p of Hole \<Rightarrow> None | Entry v t \<Rightarrow> g i)
              (zip [k ..< k + length ps] ps))"
proof (induction ps arbitrary: k)
  case Nil
  then show ?case by simp
next
  case (Cons p ps)
  have upt: "[k ..< k + length (p # ps)] = k # [Suc k ..< Suc k + length ps]"
    by (simp add: upt_rec)
  show ?case
    unfolding upt by (cases p) (simp_all add: Cons.IH[of "Suc k"] del: upt_Suc)
qed

lemma map_index_nth:
  assumes "i < length ps"
  shows "map (\<lambda>(i, p). case p of Hole \<Rightarrow> None | Entry v t \<Rightarrow> g i) (zip [0 ..< 0 + length ps] ps) ! i
         = (case ps ! i of Hole \<Rightarrow> None | Entry v t \<Rightarrow> g i)"
  using assms by simp


lemma rolling_callback_value:
  "(if truthy m then rolling_circular (the m) ps else rolling_plain ps) =
   (\<lambda>n. Inr ((if truthy m then (\<lambda>n. projr (rolling_circular (the m) ps n))
                  else (\<lambda>n. projr (rolling_plain ps n))) n))"
  by (auto simp: rolling_circular_value rolling_plain_value fun_eq_iff)

lemma iq_nonempty:
  assumes "vs \<noteq> []"
  shows "slice ((length vs + 2) div 4) ((3 * length vs + 2) div 4) vs \<noteq> []"
  using quartile_bounds[of "length vs"] assms by (simp add: slice_def)

lemma summarise_defined:
  assumes "defined_values ps \<noteq> []"
  shows "summarise ps m =
    (let vs = sort (defined_values ps);
         n = length (defined_values ps);
         iq = slice ((n + 2) div 4) ((3 * n + 2) div 4) vs
     in Inr (Some \<lparr>
          average = sum_list vs / real n,
          mean = sum_list vs / real n,
          interquartile_mean = sum_list iq / real (length iq),
          median = Some (vs ! (n div 2)),
          interquartile_range = Some (iq ! (length iq - 1) - iq ! 0),
          durations = map slot_value ps,
          timestamps = map slot_timestamp ps,
          interquartile_durations = iq,
          rolling_average =
            map (\<lambda>(i, p). case p of Hole \<Rightarrow> None
                  | Entry v t \<Rightarrow>
                      (if truthy m then projr (rolling_circular (the m) ps i)
                       else projr (rolling_plain ps i)))
                (zip [0 ..< 0 + length ps] ps),
          standard_deviation = math_sqrt (sum_of_squares (sum_list vs / real n) vs / real n),
          interquartile_standard_deviation =
            math_sqrt (sum_of_squares (sum_list iq / real (length iq)) iq / real (length iq))
        \<rparr>))"
proof -
  let ?vs = "sort (defined_values ps)"
  let ?n = "length (defined_values ps)"
  let ?iq = "slice ((?n + 2) div 4) ((3 * ?n + 2) div 4) ?vs"
  have n0: "?n \<noteq> 0" using assms by simp
  have ln: "length ?vs = ?n" by simp
  have vne: "?vs \<noteq> []" using n0 ln by (metis list.size(3))
  note n = n0 ln vne
  have iq: "?iq \<noteq> []"
    using iq_nonempty[of ?vs] n by simp
  have r1: "reduce_plus ?vs = Inr (sum_list ?vs)"
    using n by (simp add: reduce_plus_sum)
  have r2: "reduce_plus ?iq = Inr (sum_list ?iq)"
    using iq by (simp add: reduce_plus_sum)
  have r3: "map_index (if truthy m then rolling_circular (the m) ps else rolling_plain ps) 0 ps
      = Inr (map (\<lambda>(i, p). case p of Hole \<Rightarrow> None
                  | Entry v t \<Rightarrow>
                      (if truthy m then projr (rolling_circular (the m) ps i)
                       else projr (rolling_plain ps i)))
                (zip [0 ..< 0 + length ps] ps))"
    by (subst rolling_callback_value, subst map_index_value) (auto split: slot.splits)
  have idx: "?n div 2 < ?n" "length ?iq - 1 < length ?iq" "0 < length ?iq" "length ?iq \<noteq> 0"
    using n iq by auto
  show ?thesis
    unfolding summarise_def Let_def round_quarter round_three_quarters floor_half ln
    by (simp only: n0 ln idx if_False if_True r1 r2 r3 thenE_Inr or_one_def js_index_def
        js_minus.simps)
qed




lemma defined_values_empty_iff:
  "defined_values ps = [] \<longleftrightarrow> (\<forall>p\<in>set ps. slot_value p = None)"
  by (induction ps) (auto simp: defined_values_def map_filter_simps split: option.splits)

lemma summarise_null: "defined_values ps = [] \<Longrightarrow> summarise ps m = Inr None"
  by (simp add: summarise_def)

lemma summarise_never_throws: "summarise ps m \<noteq> Inl e"
proof (cases "defined_values ps = []")
  case True
  then show ?thesis by (simp add: summarise_null)
next
  case False
  then show ?thesis by (simp add: summarise_defined Let_def)
qed

text \<open>
  Claim C8. When every entry of the input has an undefined value (the empty sequence and
  holes included), \<^verbatim>\<open>summarise\<close> returns \<^verbatim>\<open>null\<close> and does not throw;
  so \<^verbatim>\<open>summarise_records\<close> with a filter that matches no record returns
  \<^verbatim>\<open>null\<close>.
\<close>

theorem summarise_no_data:
  "((\<forall>p\<in>set ps. slot_value p = None) \<longrightarrow> summarise ps m = Inr None) \<and>
   ((\<forall>r\<in>set records. \<not> f r) \<longrightarrow> summarise_records (Some f) records = Inr None)"
proof (intro conjI impI)
  assume "\<forall>p\<in>set ps. slot_value p = None"
  then show "summarise ps m = Inr None"
    by (simp add: summarise_null defined_values_empty_iff)
next
  assume "\<forall>r\<in>set records. \<not> f r"
  then have "filter f records = []" by (simp add: filter_empty_conv)
  then show "summarise_records (Some f) records = Inr None"
    by (simp add: summarise_records_def summarise_null defined_values_def map_filter_simps)
qed

theorem summarise_no_data_witness:
  "summarise [Hole, Entry None (Some 3)] (Some 86400000) = Inr None \<and>
   summarise [] None = Inr None \<and>
   summarise_records (Some (\<lambda>r. status r = ''asleep''))
     [\<lparr>status = ''awake'', start = Some 5, end' = Some 9, start_timezone = None,
       end_timezone = None, duration = Some 4, tags = None, comments = None,
       day_number = Some 0, start_of_new_day = Some False, is_primary_sleep = None,
       missing_record_after = None\<rparr>] = Inr None"
  using summarise_no_data[of "[Hole, Entry None (Some 3)]" "Some 86400000"
      "[\<lparr>status = ''awake'', start = Some 5, end' = Some 9, start_timezone = None,
         end_timezone = None, duration = Some 4, tags = None, comments = None,
         day_number = Some 0, start_of_new_day = Some False, is_primary_sleep = None,
         missing_record_after = None\<rparr>]" "\<lambda>r. status r = ''asleep''"]
    summarise_no_data[of "[]" None "[]" "\<lambda>r. True"]
  by simp




lemma rolling_average_nth:
  assumes "defined_values ps \<noteq> []" "summarise ps m = Inr (Some st)" "i < length ps"
  shows "rolling_average st ! i =
           (case ps ! i of Hole \<Rightarrow> None
            | Entry v t \<Rightarrow>
                (if truthy m then projr (rolling_circular (the m) ps i)
                 else projr (rolling_plain ps i)))"
  using assms(2,3) unfolding summarise_defined[OF assms(1)] Let_def
  by (auto simp del: upt_Suc)

lemma rolling_average_length:
  assumes "defined_values ps \<noteq> []" "summarise ps m = Inr (Some st)"
  shows "length (rolling_average st) = length ps"
  using assms(2) unfolding summarise_defined[OF assms(1)] Let_def
  by (auto simp del: upt_Suc)

lemma filter_high:
  assumes "0 \<le> (p::real)"
  shows "filter (\<lambda>d. \<not> d < p / 4 \<and> d > p * 3 / 4) w = filter (\<lambda>v. v > 3 * p / 4) w"
  using assms by (intro filter_cong) auto

lemma summarise_Some:
  assumes "defined_values ps \<noteq> []"
  shows "\<exists>st. summarise ps m = Inr (Some st)"
  unfolding summarise_defined[OF assms] Let_def by simp

text \<open>
  Claim C5, as amended. With no circular period (\<^verbatim>\<open>rolling_average_max\<close> falsy) and
  at least one defined value, \<^verbatim>\<open>rolling_average\<close> has the length of the input;
  \<^verbatim>\<open>rolling_average[i]\<close> is undefined when \<open>i < 14\<close> and at every hole of the
  input, and when \<open>i \<ge> 14\<close>, the entry at \<open>i\<close> is present and the window holds a
  defined value, it is the arithmetic mean of the defined values at the indices
  \<open>max(0, i-13)\<close> through \<open>i\<close>.
\<close>

theorem rolling_average_plain:
  assumes "defined_values ps \<noteq> []" and "\<not> truthy m"
  shows "\<exists>st. summarise ps m = Inr (Some st) \<and>
           length (rolling_average st) = length ps \<and>
           (\<forall>i<length ps.
              (i < 14 \<longrightarrow> rolling_average st ! i = None) \<and>
              (ps ! i = Hole \<longrightarrow> rolling_average st ! i = None) \<and>
              (14 \<le> i \<and> ps ! i \<noteq> Hole \<and> spec_window ps i \<noteq> [] \<longrightarrow>
                 rolling_average st ! i = Some (spec_mean (spec_window ps i))))"
proof -
  obtain st where st: "summarise ps m = Inr (Some st)"
    using summarise_Some[OF assms(1)] by blast
  have len: "length (rolling_average st) = length ps"
    using rolling_average_length[OF assms(1) st] .
  have "(i < 14 \<longrightarrow> rolling_average st ! i = None) \<and>
        (ps ! i = Hole \<longrightarrow> rolling_average st ! i = None) \<and>
        (14 \<le> i \<and> ps ! i \<noteq> Hole \<and> spec_window ps i \<noteq> [] \<longrightarrow>
           rolling_average st ! i = Some (spec_mean (spec_window ps i)))"
    if i: "i < length ps" for i
    unfolding rolling_average_nth[OF assms(1) st i]
    using assms(2) rolling_window_spec[OF i]
    by (auto simp: rolling_plain_value spec_mean_def split: slot.splits)
  with st len show ?thesis by blast
qed

text \<open>
  Claim C6, as amended. With a circular period \<open>p \<ge> 0\<close> and an index \<open>i \<ge> 14\<close>
  whose entry is present and whose window holds a defined value: with \<open>L\<close> the number of
  defined window values below \<open>p/4\<close>, \<open>H\<close> the number above \<open>3p/4\<close>, \<open>k\<close> the
  number of defined window values and \<open>S\<close> their sum, \<^verbatim>\<open>rolling_average[i]\<close> is
  \<open>(S + L*p)/k\<close> if \<open>L < H\<close> and \<open>(S - H*p)/k\<close> otherwise.
\<close>

theorem rolling_average_circular:
  assumes "defined_values ps \<noteq> []" and "0 \<le> p"
  shows "\<exists>st. summarise ps (Some p) = Inr (Some st) \<and>
           (\<forall>i<length ps.
              14 \<le> i \<and> ps ! i \<noteq> Hole \<and> spec_window ps i \<noteq> [] \<longrightarrow>
                (let w = spec_window ps i;
                     L = length (filter (\<lambda>v. v < p / 4) w);
                     H = length (filter (\<lambda>v. v > 3 * p / 4) w);
                     k = length w;
                     S = sum_list w
                 in rolling_average st ! i =
                      Some (if L < H then (S + real L * p) / real k
                            else (S - real H * p) / real k)))"
proof -
  obtain st where st: "summarise ps (Some p) = Inr (Some st)"
    using summarise_Some[OF assms(1)] by blast
  have "let w = spec_window ps i;
            L = length (filter (\<lambda>v. v < p / 4) w);
            H = length (filter (\<lambda>v. v > 3 * p / 4) w);
            k = length w;
            S = sum_list w
        in rolling_average st ! i =
             Some (if L < H then (S + real L * p) / real k else (S - real H * p) / real k)"
    if i: "i < length ps" and c: "14 \<le> i" "ps ! i \<noteq> Hole" "spec_window ps i \<noteq> []" for i
  proof (cases "p = 0")
    case True
    then have "rolling_average st ! i
        = Some (sum_list (spec_window ps i) / real (length (spec_window ps i)))"
      unfolding rolling_average_nth[OF assms(1) st i]
      using c rolling_window_spec[OF i]
      by (auto simp: rolling_plain_value split: slot.splits)
    with True show ?thesis by (simp add: Let_def)
  next
    case False
    then have "rolling_average st ! i
        = (let w = spec_window ps i;
               l = length (filter (\<lambda>d. d < p / 4) w);
               h = length (filter (\<lambda>v. v > 3 * p / 4) w)
           in Some ((sum_list w + (if l < h then real l * p else - (real h * p)))
                    / real (length w)))"
      unfolding rolling_average_nth[OF assms(1) st i]
      using c rolling_window_spec[OF i]
      by (auto simp only: rolling_circular_value filter_high[OF assms(2)] truthy.simps
          option.sel sum.sel if_True if_False simp_thms split: slot.splits)
    then show ?thesis by (simp add: Let_def)
  qed
  with st show ?thesis by blast
qed

text \<open>
  Claim C10. \<^verbatim>\<open>latest_sleep_status()\<close> is the status of the last record whose
  status is \<^verbatim>\<open>"awake"\<close> or \<^verbatim>\<open>"asleep"\<close>, and the empty string when there is
  none.
\<close>

lemma latest_from_filter:
  "k \<le> length records \<Longrightarrow>
   latest_from records k =
     (case filter (\<lambda>r. status r = ''awake'' \<or> status r = ''asleep'') (take k records) of
        [] \<Rightarrow> ''''
      | x # xs \<Rightarrow> status (last (x # xs)))"
proof (induction k)
  case 0
  then show ?case by simp
next
  case (Suc k)
  then have t: "take (Suc k) records = take k records @ [records ! k]"
    by (simp add: take_Suc_conv_app_nth)
  show ?case
    using Suc unfolding t
    by (auto simp: Let_def split: list.splits)
qed

theorem latest_sleep_status_last:
  "latest_sleep_status records =
     (case filter (\<lambda>r. status r = ''awake'' \<or> status r = ''asleep'') records of
        [] \<Rightarrow> ''''
      | x # xs \<Rightarrow> status (last (x # xs)))"
  using latest_from_filter[of "length records" records]
  by (simp add: latest_sleep_status_def)





theorem rolling_average_plain_witness:
  "\<exists>st. summarise
      [Entry (Some 1) (Some 0), Entry (Some 2) (Some 0), Entry (Some 3) (Some 0), Entry (Some 4) (Some 0),
         Entry (Some 5) (Some 0), Entry (Some 6) (Some 0), Entry (Some 7) (Some 0), Entry (Some 8) (Some 0),
         Entry (Some 9) (Some 0), Entry (Some 10) (Some 0), Entry (Some 11) (Some 0), Entry (Some 12) (Some 0),
         Entry (Some 13) (Some 0), Entry (Some 14) (Some 0), Entry (Some 15) (Some 0)] None = Inr (Some st) \<and>
      length (rolling_average st) = 15 \<and> rolling_average st ! 3 = None \<and>
      rolling_average st ! 14 = Some (17 / 2)"
proof -
  let ?ps = "[Entry (Some 1) (Some 0), Entry (Some 2) (Some 0), Entry (Some 3) (Some 0), Entry (Some 4) (Some 0),
         Entry (Some 5) (Some 0), Entry (Some 6) (Some 0), Entry (Some 7) (Some 0), Entry (Some 8) (Some 0),
         Entry (Some 9) (Some 0), Entry (Some 10) (Some 0), Entry (Some 11) (Some 0), Entry (Some 12) (Some 0),
         Entry (Some 13) (Some 0), Entry (Some 14) (Some 0), Entry (Some 15) (Some 0)]"
  have ne: "defined_values ?ps \<noteq> []" by code_simp
  have w: "spec_window ?ps 14 = [2, 3, 4, 5, 6, 7, 8, 9, 10, 11, 12, 13, 14, 15]" by code_simp
  have p: "?ps ! 14 \<noteq> Hole" "length ?ps = 15" by simp_all
  obtain st where st: "summarise ?ps None = Inr (Some st)"
      "length (rolling_average st) = length ?ps"
      "\<forall>i<length ?ps.
         (i < 14 \<longrightarrow> rolling_average st ! i = None) \<and>
         (?ps ! i = Hole \<longrightarrow> rolling_average st ! i = None) \<and>
         (14 \<le> i \<and> ?ps ! i \<noteq> Hole \<and> spec_window ?ps i \<noteq> [] \<longrightarrow>
            rolling_average st ! i = Some (spec_mean (spec_window ?ps i)))"
    using rolling_average_plain[OF ne, of None] by auto
  have "rolling_average st ! 3 = None"
    using st(3) p(2) by simp
  moreover have "rolling_average st ! 14 = Some (spec_mean (spec_window ?ps 14))"
    using st(3) p w by simp
  ultimately show ?thesis
    using st(1,2) p(2) by (simp add: w spec_mean_def)
qed

text \<open>
  The claim as stated fails at a hole: the input below has a hole at index 14 and thirteen
  defined values in the window of that index, whose mean is 8, and
  \<^verbatim>\<open>rolling_average[14]\<close> is undefined.
\<close>

theorem rolling_average_plain_counterexample:
  "map_sum id (map_option rolling_average)
     (summarise
        [Entry (Some 8) (Some 0), Entry (Some 8) (Some 0), Entry (Some 8) (Some 0), Entry (Some 8) (Some 0),
         Entry (Some 8) (Some 0), Entry (Some 8) (Some 0), Entry (Some 8) (Some 0), Entry (Some 8) (Some 0),
         Entry (Some 8) (Some 0), Entry (Some 8) (Some 0), Entry (Some 8) (Some 0), Entry (Some 8) (Some 0),
         Entry (Some 8) (Some 0), Entry (Some 8) (Some 0), Hole, Entry (Some 8) (Some 0)] None)
   = Inr (Some [None, None, None, None, None, None, None, None, None, None, None, None,
                None, None, None, Some 8]) \<and>
   spec_window
     [Entry (Some 8) (Some 0), Entry (Some 8) (Some 0), Entry (Some 8) (Some 0), Entry (Some 8) (Some 0),
         Entry (Some 8) (Some 0), Entry (Some 8) (Some 0), Entry (Some 8) (Some 0), Entry (Some 8) (Some 0),
         Entry (Some 8) (Some 0), Entry (Some 8) (Some 0), Entry (Some 8) (Some 0), Entry (Some 8) (Some 0),
         Entry (Some 8) (Some 0), Entry (Some 8) (Some 0), Hole, Entry (Some 8) (Some 0)] 14
   = [8, 8, 8, 8, 8, 8, 8, 8, 8, 8, 8, 8, 8] \<and>
   spec_mean (spec_window
     [Entry (Some 8) (Some 0), Entry (Some 8) (Some 0), Entry (Some 8) (Some 0), Entry (Some 8) (Some 0),
         Entry (Some 8) (Some 0), Entry (Some 8) (Some 0), Entry (Some 8) (Some 0), Entry (Some 8) (Some 0),
         Entry (Some 8) (Some 0), Entry (Some 8) (Some 0), Entry (Some 8) (Some 0), Entry (Some 8) (Some 0),
         Entry (Some 8) (Some 0), Entry (Some 8) (Some 0), Hole, Entry (Some 8) (Some 0)] 14) = 8"
  by code_simp

theorem rolling_average_circular_witness:
  "\<exists>st. summarise
      [Entry (Some 23) (Some 0), Entry (Some 1) (Some 0), Entry (Some 23) (Some 0), Entry (Some 1) (Some 0),
         Entry (Some 23) (Some 0), Entry (Some 1) (Some 0), Entry (Some 23) (Some 0), Entry (Some 1) (Some 0),
         Entry (Some 23) (Some 0), Entry (Some 1) (Some 0), Entry (Some 23) (Some 0), Entry (Some 1) (Some 0),
         Entry (Some 23) (Some 0), Entry (Some 1) (Some 0), Entry (Some 23) (Some 0)] (Some 24) = Inr (Some st) \<and>
      rolling_average st ! 14 = Some 0"
proof -
  let ?ps = "[Entry (Some 23) (Some 0), Entry (Some 1) (Some 0), Entry (Some 23) (Some 0), Entry (Some 1) (Some 0),
         Entry (Some 23) (Some 0), Entry (Some 1) (Some 0), Entry (Some 23) (Some 0), Entry (Some 1) (Some 0),
         Entry (Some 23) (Some 0), Entry (Some 1) (Some 0), Entry (Some 23) (Some 0), Entry (Some 1) (Some 0),
         Entry (Some 23) (Some 0), Entry (Some 1) (Some 0), Entry (Some 23) (Some 0)]"
  have ne: "defined_values ?ps \<noteq> []" by code_simp
  have w: "spec_window ?ps 14 = [1, 23, 1, 23, 1, 23, 1, 23, 1, 23, 1, 23, 1, 23]" by code_simp
  have p: "?ps ! 14 \<noteq> Hole" "length ?ps = 15" by simp_all
  obtain st where st: "summarise ?ps (Some 24) = Inr (Some st)"
      "\<forall>i<length ?ps.
         14 \<le> i \<and> ?ps ! i \<noteq> Hole \<and> spec_window ?ps i \<noteq> [] \<longrightarrow>
           (let w = spec_window ?ps i;
                L = length (filter (\<lambda>v. v < 24 / 4) w);
                H = length (filter (\<lambda>v. v > 3 * 24 / 4) w);
                k = length w;
                S = sum_list w
            in rolling_average st ! i =
                 Some (if L < H then (S + real L * 24) / real k
                       else (S - real H * 24) / real k))"
    using rolling_average_circular[OF ne, of 24] by auto
  have "rolling_average st ! 14 = Some 0"
    using st(2) p by (simp add: w Let_def)
  with st(1) show ?thesis by blast
qed

text \<open>
  The claim as stated fails at a hole (first input: a hole at index 14, window values
  with \<open>L = 7\<close>, \<open>H = 6\<close>, \<open>S = 145\<close>, so the claim's value is \<open>(145 - 144)/13\<close>, and
  \<^verbatim>\<open>rolling_average[14]\<close> is undefined), and for a negative period (second input,
  \<open>p = -4\<close>: every window value \<open>-2\<close> is below \<open>p/4\<close> and above \<open>3p/4\<close>, so
  \<open>L = H = 14\<close> and the claim's value is \<open>(-28 + 56)/14 = 2\<close>, and
  \<^verbatim>\<open>rolling_average[14]\<close> is \<open>-2\<close>).
\<close>

theorem rolling_average_circular_counterexample:
  "map_sum id (map_option (\<lambda>st. rolling_average st ! 14))
     (summarise
        [Entry (Some 23) (Some 0), Entry (Some 1) (Some 0), Entry (Some 23) (Some 0), Entry (Some 1) (Some 0),
         Entry (Some 23) (Some 0), Entry (Some 1) (Some 0), Entry (Some 23) (Some 0), Entry (Some 1) (Some 0),
         Entry (Some 23) (Some 0), Entry (Some 1) (Some 0), Entry (Some 23) (Some 0), Entry (Some 1) (Some 0),
         Entry (Some 23) (Some 0), Entry (Some 1) (Some 0), Hole, Entry (Some 1) (Some 0)] (Some 24))
   = Inr (Some None) \<and>
   spec_window
     [Entry (Some 23) (Some 0), Entry (Some 1) (Some 0), Entry (Some 23) (Some 0), Entry (Some 1) (Some 0),
         Entry (Some 23) (Some 0), Entry (Some 1) (Some 0), Entry (Some 23) (Some 0), Entry (Some 1) (Some 0),
         Entry (Some 23) (Some 0), Entry (Some 1) (Some 0), Entry (Some 23) (Some 0), Entry (Some 1) (Some 0),
         Entry (Some 23) (Some 0), Entry (Some 1) (Some 0), Hole, Entry (Some 1) (Some 0)] 14
   = [1, 23, 1, 23, 1, 23, 1, 23, 1, 23, 1, 23, 1] \<and>
   map_sum id (map_option (\<lambda>st. rolling_average st ! 14))
     (summarise
        [Entry (Some (- 2)) (Some 0), Entry (Some (- 2)) (Some 0), Entry (Some (- 2)) (Some 0), Entry (Some (- 2)) (Some 0),
         Entry (Some (- 2)) (Some 0), Entry (Some (- 2)) (Some 0), Entry (Some (- 2)) (Some 0), Entry (Some (- 2)) (Some 0),
         Entry (Some (- 2)) (Some 0), Entry (Some (- 2)) (Some 0), Entry (Some (- 2)) (Some 0), Entry (Some (- 2)) (Some 0),
         Entry (Some (- 2)) (Some 0), Entry (Some (- 2)) (Some 0), Entry (Some (- 2)) (Some 0)] (Some (- 4)))
   = Inr (Some (Some (- 2))) \<and>
   spec_window
     [Entry (Some (- 2)) (Some 0), Entry (Some (- 2)) (Some 0), Entry (Some (- 2)) (Some 0), Entry (Some (- 2)) (Some 0),
         Entry (Some (- 2)) (Some 0), Entry (Some (- 2)) (Some 0), Entry (Some (- 2)) (Some 0), Entry (Some (- 2)) (Some 0),
         Entry (Some (- 2)) (Some 0), Entry (Some (- 2)) (Some 0), Entry (Some (- 2)) (Some 0), Entry (Some (- 2)) (Some 0),
         Entry (Some (- 2)) (Some 0), Entry (Some (- 2)) (Some 0), Entry (Some (- 2)) (Some 0)] 14
   = [- 2, - 2, - 2, - 2, - 2, - 2, - 2, - 2, - 2, - 2, - 2, - 2, - 2, - 2]"
  by code_simp

text \<open>A diary whose last sleep/wake record is awake, with a later record of another status.\<close>

theorem latest_sleep_status_last_witness:
  "latest_sleep_status
     [\<lparr>status = ''asleep'', start = Some 1, end' = Some 2, start_timezone = None,
        end_timezone = None, duration = Some 1, tags = None, comments = None,
        day_number = Some 1, start_of_new_day = Some True, is_primary_sleep = Some True,
        missing_record_after = Some False\<rparr>,
      \<lparr>status = ''awake'', start = Some 2, end' = Some 3, start_timezone = None,
        end_timezone = None, duration = Some 1, tags = None, comments = None,
        day_number = Some 1, start_of_new_day = Some False, is_primary_sleep = None,
        missing_record_after = None\<rparr>,
      \<lparr>status = ''snack'', start = Some 3, end' = Some 4, start_timezone = None,
        end_timezone = None, duration = Some 1, tags = None, comments = None,
        day_number = Some 1, start_of_new_day = Some False, is_primary_sleep = None,
        missing_record_after = None\<rparr>] = ''awake'' \<and>
   latest_sleep_status [] = ''''"
  using latest_sleep_status_last[of "[]"]
    latest_sleep_status_last[of
     "[\<lparr>status = ''asleep'', start = Some 1, end' = Some 2, start_timezone = None,
        end_timezone = None, duration = Some 1, tags = None, comments = None,
        day_number = Some 1, start_of_new_day = Some True, is_primary_sleep = Some True,
        missing_record_after = Some False\<rparr>,
      \<lparr>status = ''awake'', start = Some 2, end' = Some 3, start_timezone = None,
        end_timezone = None, duration = Some 1, tags = None, comments = None,
        day_number = Some 1, start_of_new_day = Some False, is_primary_sleep = None,
        missing_record_after = None\<rparr>,
      \<lparr>status = ''snack'', start = Some 3, end' = Some 4, start_timezone = None,
        end_timezone = None, duration = Some 1, tags = None, comments = None,
        day_number = Some 1, start_of_new_day = Some False, is_primary_sleep = None,
        missing_record_after = None\<rparr>]"]
  by simp

section \<open>Helper facts about the derivation pass\<close>

lemma scan_upto_0 [simp]: "scan_upto mn mx rs 0 = (initial_scan, rs)"
  by (simp add: scan_upto_def)

lemma scan_upto_Suc:
  "scan_upto mn mx rs (Suc k) = derive_step mn mx (scan_upto mn mx rs k) k"
  by (simp add: scan_upto_def)

text \<open>The record that a step writes at its own index, before the comments are wrapped.\<close>

lemma set_missing_record_after_length [simp]:
  "length (snd (set_missing_record_after i s rs)) = length rs"
  by (simp add: set_missing_record_after_def Let_def split: option.splits)

lemma update_missing_nth:
  "(rs[j := (rs ! j)\<lparr>missing_record_after := m\<rparr>] ! i')\<lparr>missing_record_after := x\<rparr>
     = (rs ! i')\<lparr>missing_record_after := x\<rparr>"
proof (cases "j < length rs")
  case True
  then show ?thesis by (cases "j = i'") simp_all
next
  case False
  then have "length rs \<le> j" by simp
  then show ?thesis by (simp only: list_update_beyond)
qed

lemma set_missing_record_after_nth:
  "(snd (set_missing_record_after i s rs) ! i')\<lparr>missing_record_after := x\<rparr>
     = (rs ! i')\<lparr>missing_record_after := x\<rparr>"
  by (simp add: set_missing_record_after_def Let_def update_missing_nth split: option.splits)

lemma set_missing_record_after_self:
  assumes "sleep_wake_record s \<noteq> Some i"
  shows "snd (set_missing_record_after i s rs) ! i = rs ! i"
  using assms
  by (auto simp: set_missing_record_after_def Let_def split: option.splits)

lemma set_missing_record_after_scan:
  "day_start (fst (set_missing_record_after i s rs)) = day_start s"
  "day_number' (fst (set_missing_record_after i s rs)) = day_number' s"
  "day_sleeps (fst (set_missing_record_after i s rs)) = day_sleeps s"
  by (simp_all add: set_missing_record_after_def Let_def)

lemma set_day_sleeps_scan:
  "day_start (set_day_sleeps i s rs) = day_start s"
  "day_number' (set_day_sleeps i s rs) = day_number' s"
  "sleep_wake_record (set_day_sleeps i s rs) = sleep_wake_record s"
  by (simp_all add: set_day_sleeps_def Let_def split: option.splits)

lemma derive_step_length [simp]:
  "length (snd (derive_step mn mx (s, rs) i)) = length rs"
  by (simp add: derive_step_def Let_def split: prod.splits)
    (metis length_list_update set_missing_record_after_length snd_conv)

lemma wrap_comments_fields [simp]:
  "status (wrap_comments r) = status r"
  "start (wrap_comments r) = start r"
  "end' (wrap_comments r) = end' r"
  "duration (wrap_comments r) = duration r"
  "day_number (wrap_comments r) = day_number r"
  "start_of_new_day (wrap_comments r) = start_of_new_day r"
  "is_primary_sleep (wrap_comments r) = is_primary_sleep r"
  "missing_record_after (wrap_comments r) = missing_record_after r"
  "tags (wrap_comments r) = tags r"
  by (simp_all add: wrap_comments_def split: option.splits comments_value.splits)

lemma wrap_comments_update:
  "wrap_comments (r\<lparr>missing_record_after := m\<rparr>) = (wrap_comments r)\<lparr>missing_record_after := m\<rparr>"
  by (simp add: wrap_comments_def split: option.splits comments_value.splits)

lemma derive_step_other:
  assumes "i' \<noteq> i"
  shows "(snd (derive_step mn mx (s, rs) i) ! i')\<lparr>missing_record_after := x\<rparr>
           = (rs ! i')\<lparr>missing_record_after := x\<rparr>"
proof -
  obtain s3 r3 where f: "derive_fields mn mx s (rs ! i) = (s3, r3)"
    by (cases "derive_fields mn mx s (rs ! i)")
  obtain s4 rs4 where m: "set_missing_record_after i s3 (rs[i := r3]) = (s4, rs4)"
    by (cases "set_missing_record_after i s3 (rs[i := r3])")
  have "(rs4 ! i')\<lparr>missing_record_after := x\<rparr> = (rs[i := r3] ! i')\<lparr>missing_record_after := x\<rparr>"
    using set_missing_record_after_nth[where i=i and s=s3 and rs="rs[i := r3]" and i'=i' and x=x] m
    by simp
  then show ?thesis
    using assms by (simp add: derive_step_def f m Let_def)
qed

lemma derive_step_self:
  assumes "i < length rs" "sleep_wake_record s \<noteq> Some i"
  shows "snd (derive_step mn mx (s, rs) i) ! i = wrap_comments (snd (derive_fields mn mx s (rs ! i)))"
proof -
  obtain s3 r3 where f: "derive_fields mn mx s (rs ! i) = (s3, r3)"
    by (cases "derive_fields mn mx s (rs ! i)")
  obtain s4 rs4 where m: "set_missing_record_after i s3 (rs[i := r3]) = (s4, rs4)"
    by (cases "set_missing_record_after i s3 (rs[i := r3])")
  have sw: "sleep_wake_record s3 = sleep_wake_record s"
    using f by (auto simp: derive_fields_def set_start_of_new_day_def set_day_number_def Let_def
        split: option.splits prod.splits if_splits)
  have "rs4 ! i = rs[i := r3] ! i"
    using set_missing_record_after_self[where s=s3 and i=i and rs="rs[i := r3]"] m sw assms(2)
    by simp
  moreover have "length rs4 = length rs"
    using set_missing_record_after_length[where i=i and s=s3 and rs="rs[i := r3]"] m by simp
  ultimately show ?thesis
    using assms(1) by (simp add: derive_step_def f m Let_def)
qed


lemma derive_fields_sleep_wake [simp]:
  "sleep_wake_record (fst (derive_fields mn mx s r)) = sleep_wake_record s"
  "day_sleeps (fst (derive_fields mn mx s r)) = day_sleeps s"
  by (auto simp: derive_fields_def set_start_of_new_day_def set_day_number_def Let_def
      split: option.splits prod.splits if_splits)

lemma set_missing_record_after_exact:
  assumes "sleep_wake_record s \<noteq> Some i'"
  shows "snd (set_missing_record_after i s rs) ! i' = rs ! i'"
  using assms
  by (auto simp: set_missing_record_after_def Let_def split: option.splits)

lemma derive_step_untouched:
  assumes "i' \<noteq> i" "sleep_wake_record s \<noteq> Some i'"
  shows "snd (derive_step mn mx (s, rs) i) ! i' = rs ! i'"
proof -
  obtain s3 r3 where f: "derive_fields mn mx s (rs ! i) = (s3, r3)"
    by (cases "derive_fields mn mx s (rs ! i)")
  obtain s4 rs4 where m: "set_missing_record_after i s3 (rs[i := r3]) = (s4, rs4)"
    by (cases "set_missing_record_after i s3 (rs[i := r3])")
  have sw: "sleep_wake_record s3 = sleep_wake_record s"
    using derive_fields_sleep_wake(1)[of mn mx s "rs ! i"] f by simp
  have "rs4 ! i' = rs[i := r3] ! i'"
    using set_missing_record_after_exact[where s=s3 and i'=i' and i=i and rs="rs[i := r3]"]
      m sw assms(2) by simp
  then show ?thesis
    using assms(1) by (simp add: derive_step_def f m Let_def)
qed

lemma derive_step_sleep_wake:
  "sleep_wake_record (fst (derive_step mn mx (s, rs) i)) = Some j \<Longrightarrow>
   j = i \<or> sleep_wake_record s = Some j"
  apply (simp add: derive_step_def Let_def set_day_sleeps_scan split: prod.splits)
  apply (auto simp: set_missing_record_after_def Let_def split: if_splits)
   apply (metis derive_fields_sleep_wake(1) fst_conv)+
  done

lemma scan_length [simp]: "length (snd (scan_upto mn mx rs k)) = length rs"
proof (induction k)
  case 0
  then show ?case by simp
next
  case (Suc k)
  then show ?case
    by (cases "scan_upto mn mx rs k") (simp add: scan_upto_Suc)
qed

lemma scan_sleep_wake_bound:
  "sleep_wake_record (fst (scan_upto mn mx rs k)) = Some j \<Longrightarrow> j < k"
proof (induction k arbitrary: j)
  case 0
  then show ?case by (simp add: initial_scan_def)
next
  case (Suc k)
  obtain s rs' where a: "scan_upto mn mx rs k = (s, rs')"
    by (cases "scan_upto mn mx rs k")
  from Suc.prems have "j = k \<or> sleep_wake_record s = Some j"
    using derive_step_sleep_wake[of mn mx s rs' k j] by (simp add: scan_upto_Suc a)
  then show ?case
    using Suc.IH[of j] a by auto
qed

lemma scan_untouched:
  "k \<le> i \<Longrightarrow> snd (scan_upto mn mx rs k) ! i = rs ! i"
proof (induction k)
  case 0
  then show ?case by simp
next
  case (Suc k)
  obtain s rs' where a: "scan_upto mn mx rs k = (s, rs')"
    by (cases "scan_upto mn mx rs k")
  have "sleep_wake_record s \<noteq> Some i"
    using scan_sleep_wake_bound[of mn mx rs k i] a Suc.prems by auto
  then have "snd (derive_step mn mx (s, rs') k) ! i = rs' ! i"
    using Suc.prems by (intro derive_step_untouched) auto
  then show ?case
    using Suc a by (simp add: scan_upto_Suc)
qed


lemma scan_record:
  assumes "i < k" "i < length rs"
  shows "(snd (scan_upto mn mx rs k) ! i)\<lparr>missing_record_after := x\<rparr>
           = (scanned_record mn mx rs i)\<lparr>missing_record_after := x\<rparr>"
  using assms(1)
proof (induction k)
  case 0
  then show ?case by simp
next
  case (Suc k)
  obtain s rs' where a: "scan_upto mn mx rs k = (s, rs')"
    by (cases "scan_upto mn mx rs k")
  show ?case
  proof (cases "i = k")
    case True
    have sw: "sleep_wake_record s \<noteq> Some k"
      using scan_sleep_wake_bound[of mn mx rs k k] a by auto
    have len: "k < length rs'"
      using scan_length[of mn mx rs k] a assms(2) True by simp
    have "rs' ! k = rs ! k"
      using scan_untouched[of k k mn mx rs] a by simp
    then show ?thesis
      using derive_step_self[OF len sw, where mn=mn and mx=mx] True a
      by (simp add: scan_upto_Suc scanned_record_def)
  next
    case False
    then have "i < k" using Suc.prems by simp
    then show ?thesis
      using Suc.IH derive_step_other[where i'=i and i=k and mn=mn and mx=mx and s=s and rs=rs' and x=x]
        False a
      by (simp add: scan_upto_Suc)
  qed
qed


lemma derive_fields_day_number:
  "day_number (snd (derive_fields mn mx s r)) = Some (day_number' (fst (derive_fields mn mx s r)))"
  by (auto simp: derive_fields_def set_start_of_new_day_def set_day_number_def Let_def
      split: option.splits prod.splits)



lemma mark_primary_length [simp]: "length (mark_primary rs x) = length rs"
  by (simp add: mark_primary_def split: option.splits)

lemma mark_all_length [simp]: "length (foldl mark_primary rs ds) = length rs"
  by (induction ds arbitrary: rs) simp_all

lemma mark_primary_nth:
  assumes "i < length rs"
  shows "mark_primary rs x ! i =
           (if x = Some i \<and> is_primary_sleep (rs ! i) = None
            then (rs ! i)\<lparr>is_primary_sleep := Some True\<rparr> else rs ! i)"
proof (cases x)
  case None
  then show ?thesis by (simp add: mark_primary_def)
next
  case (Some j)
  show ?thesis
  proof (cases "j = i")
    case True
    then show ?thesis using assms Some by (simp add: mark_primary_def split: option.splits)
  next
    case False
    then show ?thesis using Some by (simp add: mark_primary_def split: option.splits)
  qed
qed

lemma mark_all_nth:
  assumes "i < length rs"
  shows "foldl mark_primary rs ds ! i =
           (if Some i \<in> set ds \<and> is_primary_sleep (rs ! i) = None
            then (rs ! i)\<lparr>is_primary_sleep := Some True\<rparr> else rs ! i)"
  using assms
proof (induction ds arbitrary: rs)
  case Nil
  then show ?case by simp
next
  case (Cons d ds)
  have len: "i < length (mark_primary rs d)" using Cons.prems by simp
  show ?case
    using Cons.IH[OF len] Cons.prems
    by (auto simp: mark_primary_nth)
qed

lemma derive_sorted_length [simp]: "length (derive_sorted mn mx rs) = length rs"
  by (simp add: derive_sorted_def Let_def split: prod.splits)
    (metis mark_all_length scan_length snd_conv)

lemma derive_sorted_nth:
  assumes "i < length rs"
  shows "derive_sorted mn mx rs ! i =
           (let s = fst (scan_upto mn mx rs (length rs));
                r = snd (scan_upto mn mx rs (length rs)) ! i
            in if Some i \<in> set (day_sleeps s) \<and> is_primary_sleep r = None
               then r\<lparr>is_primary_sleep := Some True\<rparr> else r)"
proof -
  obtain s rs' where a: "scan_upto mn mx rs (length rs) = (s, rs')"
    by (cases "scan_upto mn mx rs (length rs)")
  have "i < length rs'"
    using scan_length[of mn mx rs "length rs"] a assms by simp
  then show ?thesis
    by (simp add: derive_sorted_def a mark_all_nth Let_def)
qed

lemma derive_sorted_record:
  assumes "i < length rs"
  shows "(derive_sorted mn mx rs ! i)\<lparr>missing_record_after := x, is_primary_sleep := y\<rparr>
           = (scanned_record mn mx rs i)\<lparr>missing_record_after := x, is_primary_sleep := y\<rparr>"
proof -
  let ?r = "snd (scan_upto mn mx rs (length rs)) ! i"
  have "?r\<lparr>missing_record_after := x\<rparr> = (scanned_record mn mx rs i)\<lparr>missing_record_after := x\<rparr>"
    using scan_record[OF assms assms] .
  then have "?r\<lparr>missing_record_after := x, is_primary_sleep := y\<rparr>
      = (scanned_record mn mx rs i)\<lparr>missing_record_after := x, is_primary_sleep := y\<rparr>"
    by simp
  then show ?thesis
    by (simp add: derive_sorted_nth[OF assms] Let_def)
qed

lemma derive_sorted_fields:
  assumes "i < length rs"
  shows "status (derive_sorted mn mx rs ! i) = status (scanned_record mn mx rs i)"
    and "start (derive_sorted mn mx rs ! i) = start (scanned_record mn mx rs i)"
    and "end' (derive_sorted mn mx rs ! i) = end' (scanned_record mn mx rs i)"
    and "duration (derive_sorted mn mx rs ! i) = duration (scanned_record mn mx rs i)"
    and "day_number (derive_sorted mn mx rs ! i) = day_number (scanned_record mn mx rs i)"
    and "start_of_new_day (derive_sorted mn mx rs ! i)
           = start_of_new_day (scanned_record mn mx rs i)"
    and "tags (derive_sorted mn mx rs ! i) = tags (scanned_record mn mx rs i)"
    and "comments (derive_sorted mn mx rs ! i) = comments (scanned_record mn mx rs i)"
proof -
  let ?a = "(derive_sorted mn mx rs ! i)\<lparr>missing_record_after := None, is_primary_sleep := None\<rparr>"
  let ?b = "(scanned_record mn mx rs i)\<lparr>missing_record_after := None, is_primary_sleep := None\<rparr>"
  have e: "?a = ?b" using derive_sorted_record[OF assms] .
  have "status ?a = status ?b" using e by simp
  then show "status (derive_sorted mn mx rs ! i) = status (scanned_record mn mx rs i)" by simp
  have "start ?a = start ?b" using e by simp
  then show "start (derive_sorted mn mx rs ! i) = start (scanned_record mn mx rs i)" by simp
  have "end' ?a = end' ?b" using e by simp
  then show "end' (derive_sorted mn mx rs ! i) = end' (scanned_record mn mx rs i)" by simp
  have "duration ?a = duration ?b" using e by simp
  then show "duration (derive_sorted mn mx rs ! i) = duration (scanned_record mn mx rs i)" by simp
  have "day_number ?a = day_number ?b" using e by simp
  then show "day_number (derive_sorted mn mx rs ! i) = day_number (scanned_record mn mx rs i)"
    by simp
  have "start_of_new_day ?a = start_of_new_day ?b" using e by simp
  then show "start_of_new_day (derive_sorted mn mx rs ! i)
           = start_of_new_day (scanned_record mn mx rs i)" by simp
  have "tags ?a = tags ?b" using e by simp
  then show "tags (derive_sorted mn mx rs ! i) = tags (scanned_record mn mx rs i)" by simp
  have "comments ?a = comments ?b" using e by simp
  then show "comments (derive_sorted mn mx rs ! i) = comments (scanned_record mn mx rs i)" by simp
qed


lemma insert_by_length [simp]: "length (insert_by c x xs) = Suc (length xs)"
  by (induction xs) simp_all

lemma js_sort_length [simp]: "length (js_sort c xs) = length xs"
  by (induction xs) (simp_all add: js_sort_def)

lemma sorted_records_length [simp]: "length (sorted_records rs) = length rs"
  by (simp add: sorted_records_def)

lemma delete_empty_fields [simp]:
  "status (delete_empty r) = status r"
  "start (delete_empty r) = start r"
  "end' (delete_empty r) = end' r"
  "duration (delete_empty r) = duration r"
  "day_number (delete_empty r) = day_number r"
  "start_of_new_day (delete_empty r) = start_of_new_day r"
  "is_primary_sleep (delete_empty r) = is_primary_sleep r"
  "missing_record_after (delete_empty r) = missing_record_after r"
  by (simp_all add: delete_empty_def)

lemma default_duration_fields [simp]:
  "status (default_duration r) = status r"
  "start (default_duration r) = start r"
  "end' (default_duration r) = end' r"
  "day_number (default_duration r) = day_number r"
  "start_of_new_day (default_duration r) = start_of_new_day r"
  "is_primary_sleep (default_duration r) = is_primary_sleep r"
  "missing_record_after (default_duration r) = missing_record_after r"
  "tags (default_duration r) = tags r"
  "comments (default_duration r) = comments r"
  by (simp_all add: default_duration_def split: option.splits)

lemma set_start_of_new_day_fields [simp]:
  "status (snd (set_start_of_new_day mn s r)) = status r"
  "start (snd (set_start_of_new_day mn s r)) = start r"
  "end' (snd (set_start_of_new_day mn s r)) = end' r"
  "duration (snd (set_start_of_new_day mn s r)) = duration r"
  "day_number (snd (set_start_of_new_day mn s r)) = day_number r"
  "is_primary_sleep (snd (set_start_of_new_day mn s r)) = is_primary_sleep r"
  "missing_record_after (snd (set_start_of_new_day mn s r)) = missing_record_after r"
  "tags (snd (set_start_of_new_day mn s r)) = tags r"
  "comments (snd (set_start_of_new_day mn s r)) = comments r"
  "day_number' (fst (set_start_of_new_day mn s r)) = day_number' s"
  "sleep_wake_record (fst (set_start_of_new_day mn s r)) = sleep_wake_record s"
  "day_sleeps (fst (set_start_of_new_day mn s r)) = day_sleeps s"
  "day_start (fst (set_start_of_new_day mn s r))
     = (if start_of_new_day r = Some True then start r else day_start s)"
  by (simp_all add: set_start_of_new_day_def split: option.splits)

lemma set_day_number_fields [simp]:
  "status (snd (set_day_number mx s r)) = status r"
  "start (snd (set_day_number mx s r)) = start r"
  "end' (snd (set_day_number mx s r)) = end' r"
  "duration (snd (set_day_number mx s r)) = duration r"
  "start_of_new_day (snd (set_day_number mx s r)) = start_of_new_day r"
  "is_primary_sleep (snd (set_day_number mx s r)) = is_primary_sleep r"
  "missing_record_after (snd (set_day_number mx s r)) = missing_record_after r"
  "tags (snd (set_day_number mx s r)) = tags r"
  "comments (snd (set_day_number mx s r)) = comments r"
  "sleep_wake_record (fst (set_day_number mx s r)) = sleep_wake_record s"
  "day_sleeps (fst (set_day_number mx s r)) = day_sleeps s"
  by (simp_all add: set_day_number_def Let_def split: option.splits)


lemma derive_fields_start [simp]:
  "start (snd (derive_fields mn mx s r)) = start r"
  "end' (snd (derive_fields mn mx s r)) = end' r"
  "status (snd (derive_fields mn mx s r)) = status r"
  "is_primary_sleep (snd (derive_fields mn mx s r)) = is_primary_sleep r"
  "missing_record_after (snd (derive_fields mn mx s r)) = missing_record_after r"
  by (simp_all add: derive_fields_def Let_def case_prod_unfold)






text \<open>
  Claim C3 fails on the code for \<^verbatim>\<open>daily_activities\<close>: the stored list of the
  diary derived from an asleep record (start 1600000000000, end 1600030000000) and an awake
  record with an end (1600020000000) and no start is in a different order after the call.
\<close>

theorem daily_activities_reorders_records:
  "derive None None
     [new_record ''asleep'' (Some 1600000000000) (Some 1600030000000),
      new_record ''awake'' None (Some 1600020000000)]
   = [(new_record ''awake'' None (Some 1600020000000))
        \<lparr>day_number := Some 0, start_of_new_day := Some False,
         missing_record_after := Some False\<rparr>,
      (new_record ''asleep'' (Some 1600000000000) (Some 1600030000000))
        \<lparr>duration := Some 30000000, day_number := Some 2, start_of_new_day := Some True,
         is_primary_sleep := Some True\<rparr>] \<and>
   records_after_daily_activities
     (derive None None
        [new_record ''asleep'' (Some 1600000000000) (Some 1600030000000),
         new_record ''awake'' None (Some 1600020000000)])
   = [(new_record ''asleep'' (Some 1600000000000) (Some 1600030000000))
        \<lparr>duration := Some 30000000, day_number := Some 2, start_of_new_day := Some True,
         is_primary_sleep := Some True\<rparr>,
      (new_record ''awake'' None (Some 1600020000000))
        \<lparr>day_number := Some 0, start_of_new_day := Some False,
         missing_record_after := Some False\<rparr>]"
  by code_simp

section \<open>Helper facts about the primary sleep\<close>

lemma array_get_set:
  "array_get (array_set xs d v) d' = (if d' = d then Some v else array_get xs d')"
  by (auto simp: array_get_def array_set_def nth_append nth_Cons' nth_list_update)

lemma array_get_mem: "array_get xs d = Some j \<Longrightarrow> Some j \<in> set xs"
  by (metis array_get_def nth_mem option.distinct(1))

lemma array_mem_get: "Some j \<in> set xs \<Longrightarrow> \<exists>d. array_get xs d = Some j"
  by (auto simp: array_get_def in_set_conv_nth)

lemma set_day_sleeps_cong:
  assumes "status (rs ! k) = status (rs' ! k)"
    and "day_number (rs ! k) = day_number (rs' ! k)"
    and "duration (rs ! k) = duration (rs' ! k)"
    and "\<And>j. Some j \<in> set (day_sleeps s) \<Longrightarrow> duration (rs ! j) = duration (rs' ! j)"
    and "day_sleeps s = day_sleeps s'"
  shows "day_sleeps (set_day_sleeps k s rs) = day_sleeps (set_day_sleeps k s' rs')"
proof -
  have "duration (rs ! j) = duration (rs' ! j)" if "array_get (day_sleeps s') d = Some j" for d j
    using assms(4)[of j] array_get_mem[OF that] assms(5) by simp
  then show ?thesis
    using assms(1,2,3,5)
    by (auto simp: set_day_sleeps_def Let_def split: option.splits)
qed

lemma best_before_unique:
  assumes "best_before G k d j" "best_before G k d j'"
  shows "j = j'"
proof (rule ccontr)
  assume "j \<noteq> j'"
  then consider "j < j'" | "j' < j" by linarith
  then show False
  proof cases
    case 1
    then have "js_greater (duration (G ! j')) (duration (G ! j))"
      using assms by (auto simp: best_before_def)
    moreover have "\<not> js_greater (duration (G ! j')) (duration (G ! j))"
      using assms by (auto simp: best_before_def)
    ultimately show False by simp
  next
    case 2
    then have "js_greater (duration (G ! j)) (duration (G ! j'))"
      using assms by (auto simp: best_before_def)
    moreover have "\<not> js_greater (duration (G ! j)) (duration (G ! j'))"
      using assms by (auto simp: best_before_def)
    ultimately show False by simp
  qed
qed


lemma js_greater_trans:
  assumes "\<not> js_greater a b" "js_greater c b" "a \<noteq> None"
  shows "js_greater c a" "\<not> js_greater a c"
  using assms by (cases a; cases b; cases c; simp)+

lemma js_greater_irrefl [simp]: "\<not> js_greater a a"
  by (cases a) simp_all

lemma tracks_best_keep:
  assumes inv: "tracks_best G k ds" and nc: "\<not> day_candidate G d k"
  shows "case array_get ds d of
           None \<Rightarrow> \<forall>j<Suc k. \<not> day_candidate G d j
         | Some j \<Rightarrow> best_before G (Suc k) d j"
proof (cases "array_get ds d")
  case None
  then have "\<forall>j<k. \<not> day_candidate G d j"
    using inv unfolding tracks_best_def by (metis option.simps(4))
  then have "\<forall>j<Suc k. \<not> day_candidate G d j"
    using nc less_Suc_eq by auto
  then show ?thesis using None by simp
next
  case (Some j)
  then have b: "best_before G k d j"
    using inv unfolding tracks_best_def by (metis option.simps(5))
  then have "j < k" by (simp add: best_before_def)
  then have "best_before G (Suc k) d j"
    using b nc by (auto simp: best_before_def less_Suc_eq)
  then show ?thesis using Some by simp
qed

text \<open>One step of the tracking, on a list of records whose fields are final.\<close>

lemma tracks_best_step:
  assumes inv: "tracks_best G k (day_sleeps s)"
    and dn: "status (G ! k) = ''asleep'' \<Longrightarrow> day_number (G ! k) \<noteq> None"
  shows "tracks_best G (Suc k) (day_sleeps (set_day_sleeps k s G))"
proof (cases "status (G ! k) = ''asleep''")
  case False
  then have nc: "\<not> day_candidate G d k" for d by (simp add: day_candidate_def)
  have same: "day_sleeps (set_day_sleeps k s G) = day_sleeps s"
    using False by (simp add: set_day_sleeps_def)
  show ?thesis
    unfolding same tracks_best_def using tracks_best_keep[OF inv nc] by blast
next
  case True
  then obtain d0 where d0: "day_number (G ! k) = Some d0" using dn by auto
  have other: "\<not> day_candidate G d k" if "d \<noteq> d0" for d
    using that d0 by (simp add: day_candidate_def)
  show ?thesis
  proof (cases "array_get (day_sleeps s) d0")
    case None
    then have none: "\<forall>j<k. \<not> day_candidate G d0 j"
      using inv unfolding tracks_best_def by (metis option.simps(4))
    show ?thesis
    proof (cases "duration (G ! k) = None")
      case dnone: True
      then have nc: "\<not> day_candidate G d k" for d by (simp add: day_candidate_def)
      have same: "day_sleeps (set_day_sleeps k s G) = day_sleeps s"
        using True d0 None dnone by (simp add: set_day_sleeps_def)
      show ?thesis
        unfolding same tracks_best_def using tracks_best_keep[OF inv nc] by blast
    next
      case dsome: False
      then have cand: "day_candidate G d0 k" using True d0 by (simp add: day_candidate_def)
      have upd: "day_sleeps (set_day_sleeps k s G) = array_set (day_sleeps s) d0 k"
        using True d0 None dsome by (simp add: set_day_sleeps_def)
      have best: "best_before G (Suc k) d0 k"
        using cand none by (auto simp: best_before_def less_Suc_eq)
      show ?thesis
        unfolding upd tracks_best_def array_get_set
      proof (intro allI)
        fix d
        show "case (if d = d0 then Some k else array_get (day_sleeps s) d) of
                None \<Rightarrow> \<forall>j<Suc k. \<not> day_candidate G d j
              | Some j \<Rightarrow> best_before G (Suc k) d j"
        proof (cases "d = d0")
          case True
          then show ?thesis using best by simp
        next
          case False
          then show ?thesis using tracks_best_keep[OF inv other[OF False]] by simp
        qed
      qed
    qed
  next
    case (Some j)
    then have bj: "best_before G k d0 j"
      using inv unfolding tracks_best_def by (metis option.simps(5))
    then have jk: "j < k" and cj: "day_candidate G d0 j"
      and maxj: "\<And>j'. j' < k \<Longrightarrow> day_candidate G d0 j' \<Longrightarrow>
                   \<not> js_greater (duration (G ! j')) (duration (G ! j))"
      and firstj: "\<And>j'. j' < j \<Longrightarrow> day_candidate G d0 j' \<Longrightarrow>
                   js_greater (duration (G ! j)) (duration (G ! j'))"
      by (auto simp: best_before_def)
    show ?thesis
    proof (cases "js_greater (duration (G ! k)) (duration (G ! j))")
      case gt: True
      then have dsome: "duration (G ! k) \<noteq> None" by (cases "duration (G ! k)") auto
      then have cand: "day_candidate G d0 k" using True d0 by (simp add: day_candidate_def)
      have upd: "day_sleeps (set_day_sleeps k s G) = array_set (day_sleeps s) d0 k"
        using True d0 Some gt by (simp add: set_day_sleeps_def)
      have beats: "js_greater (duration (G ! k)) (duration (G ! j'))"
          "\<not> js_greater (duration (G ! j')) (duration (G ! k))"
        if "j' < k" "day_candidate G d0 j'" for j'
        using js_greater_trans[OF maxj[OF that] gt] that(2) by (auto simp: day_candidate_def)
      have best: "best_before G (Suc k) d0 k"
        using cand beats by (auto simp: best_before_def less_Suc_eq)
      show ?thesis
        unfolding upd tracks_best_def array_get_set
      proof (intro allI)
        fix d
        show "case (if d = d0 then Some k else array_get (day_sleeps s) d) of
                None \<Rightarrow> \<forall>j<Suc k. \<not> day_candidate G d j
              | Some j \<Rightarrow> best_before G (Suc k) d j"
        proof (cases "d = d0")
          case True
          then show ?thesis using best by simp
        next
          case False
          then show ?thesis using tracks_best_keep[OF inv other[OF False]] by simp
        qed
      qed
    next
      case ngt: False
      have same: "day_sleeps (set_day_sleeps k s G) = day_sleeps s"
        using True d0 Some ngt by (simp add: set_day_sleeps_def)
      have best: "best_before G (Suc k) d0 j"
        using bj ngt jk by (auto simp: best_before_def less_Suc_eq)
      show ?thesis
        unfolding same tracks_best_def
      proof (intro allI)
        fix d
        show "case array_get (day_sleeps s) d of
                None \<Rightarrow> \<forall>j<Suc k. \<not> day_candidate G d j
              | Some j \<Rightarrow> best_before G (Suc k) d j"
        proof (cases "d = d0")
          case True
          then show ?thesis using best Some by simp
        next
          case False
          then show ?thesis using tracks_best_keep[OF inv other[OF False]] by simp
        qed
      qed
    qed
  qed
qed

lemma up_to_missing_fields:
  assumes "a\<lparr>missing_record_after := x\<rparr> = b\<lparr>missing_record_after := x\<rparr>"
  shows "status a = status b" "start a = start b" "end' a = end' b"
    "duration a = duration b" "day_number a = day_number b"
    "start_of_new_day a = start_of_new_day b" "is_primary_sleep a = is_primary_sleep b"
    "tags a = tags b" "comments a = comments b"
    "start_timezone a = start_timezone b" "end_timezone a = end_timezone b"
  using arg_cong[OF assms, of status] arg_cong[OF assms, of start] arg_cong[OF assms, of end']
    arg_cong[OF assms, of duration] arg_cong[OF assms, of day_number]
    arg_cong[OF assms, of start_of_new_day] arg_cong[OF assms, of is_primary_sleep]
    arg_cong[OF assms, of tags] arg_cong[OF assms, of comments]
    arg_cong[OF assms, of start_timezone] arg_cong[OF assms, of end_timezone]
  by simp_all

lemma scan_record_fields:
  assumes "i < k" "i < length rs"
  shows "status (snd (scan_upto mn mx rs k) ! i) = status (scanned_record mn mx rs i)"
    and "duration (snd (scan_upto mn mx rs k) ! i) = duration (scanned_record mn mx rs i)"
    and "day_number (snd (scan_upto mn mx rs k) ! i) = day_number (scanned_record mn mx rs i)"
    and "is_primary_sleep (snd (scan_upto mn mx rs k) ! i)
           = is_primary_sleep (scanned_record mn mx rs i)"
  using up_to_missing_fields[OF scan_record[OF assms, where mn=mn and mx=mx and x=None]]
  by simp_all

lemma derive_step_day_sleeps:
  assumes k: "k < length rs"
    and sw: "sleep_wake_record s \<noteq> Some k"
    and old: "\<And>j. Some j \<in> set (day_sleeps s) \<Longrightarrow> j \<noteq> k \<and> duration (rs ! j) = duration (G ! j)"
    and new: "status (G ! k) = status (snd (derive_fields mn mx s (rs ! k)))"
      "day_number (G ! k) = day_number (snd (derive_fields mn mx s (rs ! k)))"
      "duration (G ! k) = duration (snd (derive_fields mn mx s (rs ! k)))"
  shows "day_sleeps (fst (derive_step mn mx (s, rs) k)) = day_sleeps (set_day_sleeps k s G)"
proof -
  obtain s3 r3 where f: "derive_fields mn mx s (rs ! k) = (s3, r3)"
    by (cases "derive_fields mn mx s (rs ! k)")
  obtain s4 rs4 where m: "set_missing_record_after k s3 (rs[k := r3]) = (s4, rs4)"
    by (cases "set_missing_record_after k s3 (rs[k := r3])")
  have s3: "sleep_wake_record s3 = sleep_wake_record s" "day_sleeps s3 = day_sleeps s"
    using derive_fields_sleep_wake[where mn=mn and mx=mx and s=s and r="rs ! k"] f by simp_all
  have s4: "day_sleeps s4 = day_sleeps s"
    using set_missing_record_after_scan(3)[where i=k and s=s3 and rs="rs[k := r3]"] m s3 by simp
  have up: "(rs4 ! i)\<lparr>missing_record_after := None\<rparr>
              = (rs[k := r3] ! i)\<lparr>missing_record_after := None\<rparr>" for i
    using set_missing_record_after_nth[where i=k and s=s3 and rs="rs[k := r3]" and i'=i
        and x=None] m by simp
  have atk: "status (rs4 ! k) = status r3" "day_number (rs4 ! k) = day_number r3"
      "duration (rs4 ! k) = duration r3"
    using up_to_missing_fields[OF up[of k]] k by simp_all
  have atj: "duration (rs4 ! j) = duration (G ! j)" if "Some j \<in> set (day_sleeps s4)" for j
    using up_to_missing_fields(4)[OF up[of j]] old[of j] that s4 by simp
  have "day_sleeps (set_day_sleeps k s4 rs4) = day_sleeps (set_day_sleeps k s G)"
    using atk new f atj s4
    by (intro set_day_sleeps_cong) simp_all
  then show ?thesis
    by (simp add: derive_step_def f m Let_def)
qed

lemma tracks_best_bound:
  assumes "tracks_best G k ds" "Some j \<in> set ds"
  shows "j < k"
proof -
  obtain d where "array_get ds d = Some j" using array_mem_get[OF assms(2)] by blast
  then have "best_before G k d j"
    using assms(1) unfolding tracks_best_def by (metis option.simps(5))
  then show ?thesis by (simp add: best_before_def)
qed

lemma scan_tracks_best:
  assumes "k \<le> length X"
    and agree: "\<And>i. i < k \<Longrightarrow>
        status (G ! i) = status (scanned_record mn mx X i) \<and>
        day_number (G ! i) = day_number (scanned_record mn mx X i) \<and>
        duration (G ! i) = duration (scanned_record mn mx X i)"
  shows "tracks_best G k (day_sleeps (fst (scan_upto mn mx X k)))"
  using assms
proof (induction k)
  case 0
  then show ?case
    by (simp add: tracks_best_def initial_scan_def array_get_def)
next
  case (Suc k)
  obtain s rs where a: "scan_upto mn mx X k = (s, rs)"
    by (cases "scan_upto mn mx X k")
  have k: "k < length X" using Suc.prems(1) by simp
  have inv: "tracks_best G k (day_sleeps s)"
    using Suc.IH Suc.prems a by simp
  have len: "k < length rs"
    using scan_length[of mn mx X k] a k by simp
  have sw: "sleep_wake_record s \<noteq> Some k"
    using scan_sleep_wake_bound[of mn mx X k k] a by auto
  have rk: "rs ! k = X ! k"
    using scan_untouched[of k k mn mx X] a by simp
  have sk: "scanned_record mn mx X k = wrap_comments (snd (derive_fields mn mx s (rs ! k)))"
    by (simp add: scanned_record_def a rk)
  have old: "j \<noteq> k \<and> duration (rs ! j) = duration (G ! j)" if "Some j \<in> set (day_sleeps s)" for j
  proof -
    have jk: "j < k" using tracks_best_bound[OF inv that] .
    then have "duration (rs ! j) = duration (scanned_record mn mx X j)"
      using scan_record_fields(2)[where i=j and k=k and rs=X and mn=mn and mx=mx] a k by simp
    then show ?thesis using jk Suc.prems(2)[of j] by simp
  qed
  have new: "status (G ! k) = status (snd (derive_fields mn mx s (rs ! k)))"
      "day_number (G ! k) = day_number (snd (derive_fields mn mx s (rs ! k)))"
      "duration (G ! k) = duration (snd (derive_fields mn mx s (rs ! k)))"
    using Suc.prems(2)[of k] sk by simp_all
  have ds: "day_sleeps (fst (scan_upto mn mx X (Suc k))) = day_sleeps (set_day_sleeps k s G)"
    using derive_step_day_sleeps[OF len sw old new] by (simp add: scan_upto_Suc a)
  have dn: "day_number (G ! k) \<noteq> None"
    using new(2) derive_fields_day_number[where mn=mn and mx=mx and s=s and r="rs ! k"] by simp
  show ?case
    unfolding ds using tracks_best_step[OF inv] dn by simp
qed

lemma filter_only:
  assumes "j < n" and "\<And>i. i < n \<Longrightarrow> P i \<longleftrightarrow> i = j"
  shows "filter P [0 ..< n] = [j]"
proof -
  have "filter P [0 ..< n] = filter (\<lambda>i. i = j) [0 ..< n]"
    using assms(2) by (intro filter_cong) auto
  also have "\<dots> = [j]"
    using assms(1)
  proof (induction n)
    case 0
    then show ?case by simp
  next
    case (Suc n)
    show ?case
    proof (cases "j = n")
      case True
      have "filter (\<lambda>i. i = j) [0 ..< n] = []"
        unfolding True by (simp add: filter_empty_conv)
      then show ?thesis using True by simp
    next
      case False
      then have "j < n" using Suc.prems by simp
      then show ?thesis using Suc.IH False by simp
    qed
  qed
  finally show ?thesis .
qed

lemma derive_sorted_is_primary_sleep:
  assumes "i < length rs"
  shows "is_primary_sleep (derive_sorted mn mx rs ! i) =
           (if Some i \<in> set (day_sleeps (fst (scan_upto mn mx rs (length rs)))) \<and>
               is_primary_sleep (rs ! i) = None
            then Some True else is_primary_sleep (rs ! i))"
proof -
  have "is_primary_sleep (snd (scan_upto mn mx rs (length rs)) ! i)
          = is_primary_sleep (scanned_record mn mx rs i)"
    using scan_record_fields(4)[OF assms assms] .
  also have "\<dots> = is_primary_sleep (rs ! i)"
    by (simp add: scanned_record_def)
  finally show ?thesis
    by (simp add: derive_sorted_nth[OF assms] Let_def)
qed

lemma derive_sorted_agree:
  assumes "i < length rs"
  shows "status (derive_sorted mn mx rs ! i) = status (scanned_record mn mx rs i) \<and>
         day_number (derive_sorted mn mx rs ! i) = day_number (scanned_record mn mx rs i) \<and>
         duration (derive_sorted mn mx rs ! i) = duration (scanned_record mn mx rs i)"
  using derive_sorted_fields(1,4,5)[OF assms] by simp

lemma derive_sorted_tracks_best:
  "tracks_best (derive_sorted mn mx rs) (length rs)
     (day_sleeps (fst (scan_upto mn mx rs (length rs))))"
  by (rule scan_tracks_best) (simp_all add: derive_sorted_agree)

end
